theory Spec2Isabelle
  imports Main "HOL-Library.Sublist"
begin

section \<open>bUnitTests (file version 1.3.0): a shallow embedding\<close>

text \<open>
  The development follows the single header \<^verbatim>\<open>bUnitTests.h\<close>, file version 1.3.0:
  the assertion macro \<^verbatim>\<open>bTEST_ASSERT\<close>, the registration constructor
  \<^verbatim>\<open>ben::tests::UnitTest::UnitTest\<close>, and the functions of the implementation part
  (\<^verbatim>\<open>get_number_of_tests\<close>, \<^verbatim>\<open>print_info\<close>, \<^verbatim>\<open>run_tests\<close>,
  \<^verbatim>\<open>print_summary\<close>, \<^verbatim>\<open>main\<close>).

  Conventions of the embedding:
  \<^item> a \<^verbatim>\<open>std::string\<close> is a \<open>string\<close>; \<^verbatim>\<open>size_t\<close> counters are \<open>nat\<close> (they
    count objects that exist in memory, so they cannot wrap);
  \<^item> a thrown C++ object is a value of type \<open>thrown\<close>, and code that may throw returns
    a sum whose left injection carries the thrown object;
  \<^item> the process-wide objects (\<^verbatim>\<open>std::cout\<close> with its current stream buffer, the log
    file, \<^verbatim>\<open>g_successes\<close>, the two function-local statics of
    \<^verbatim>\<open>get_number_of_tests\<close>) form the record \<open>world\<close>, passed through every function;
  \<^item> a \<^verbatim>\<open>std::unordered_map\<close> is an association list. The list order stands for
    the (unspecified) iteration order of the map, and every statement about the runner
    is proved for an arbitrary list, hence for every iteration order;
  \<^item> the compile-time switches \<^verbatim>\<open>_WIN32\<close> and \<^verbatim>\<open>bTESTS_NO_LOG\<close> are boolean
    parameters.
\<close>

subsection \<open>Characters that cannot be written inside a string literal\<close>

abbreviation TAB :: string where "TAB \<equiv> [CHR 0x09]"
abbreviation NL :: string where "NL \<equiv> [CHR 0x0A]"
abbreviation QUOTE :: string where "QUOTE \<equiv> [CHR 0x27]"

subsection \<open>Thrown objects and the handler of the runner\<close>

text \<open>
  What a test function can throw: a \<^verbatim>\<open>std::exception\<close> object itself (this is what
  \<^verbatim>\<open>bTEST_ASSERT\<close> throws; the argument is the text returned by \<^verbatim>\<open>what()\<close>), an
  object of a class derived from \<^verbatim>\<open>std::exception\<close> such as
  \<^verbatim>\<open>std::runtime_error\<close> (class name and \<^verbatim>\<open>what()\<close> text), or an object of any
  other type, for example \<^verbatim>\<open>throw 42\<close>.
\<close>

datatype thrown =
    std_exception string
  | derived_exception string string
  | foreign_object

text \<open>
  The handler \<^verbatim>\<open>catch (const std::exception &e)\<close>: it matches the class itself and
  every class derived from it, and the handler body reads \<^verbatim>\<open>e.what()\<close>. The result is
  \<open>None\<close> when the handler does not match.
\<close>

fun catch_std_exception :: "thrown \<Rightarrow> string option" where
  "catch_std_exception (std_exception what) = Some what"
| "catch_std_exception (derived_exception cls what) = Some what"
| "catch_std_exception foreign_object = None"

text \<open>How a statement or a test function ends.\<close>

datatype outcome = Returns | Throws thrown

subsection \<open>\<^verbatim>\<open>std::to_string\<close>, \<^verbatim>\<open>find_last_of\<close>, \<^verbatim>\<open>substr\<close>\<close>

fun to_string :: "nat \<Rightarrow> string" where
  "to_string n =
     (if n < 10 then [''0123456789'' ! n]
      else to_string (n div 10) @ [''0123456789'' ! (n mod 10)])"

declare to_string.simps [simp del]

text \<open>\<^verbatim>\<open>s.find_last_of(c)\<close>; \<open>None\<close> is \<^verbatim>\<open>std::string::npos\<close>.\<close>

fun find_last_of :: "string \<Rightarrow> char \<Rightarrow> nat option" where
  "find_last_of [] c = None"
| "find_last_of (x # xs) c =
     (case find_last_of xs c of
        Some i \<Rightarrow> Some (Suc i)
      | None \<Rightarrow> if x = c then Some 0 else None)"

text \<open>
  \<^verbatim>\<open>s.substr(pos)\<close>: the characters from index \<open>pos\<close> (inclusive) to the end;
  \<^verbatim>\<open>std::out_of_range\<close> when \<open>pos\<close> exceeds the size. The text of that exception is
  implementation-defined and stands here as a fixed string.
\<close>

definition substr :: "string \<Rightarrow> nat \<Rightarrow> thrown + string" where
  "substr s pos =
     (if length s < pos
      then Inl (derived_exception ''std::out_of_range'' ''invalid string position'')
      else Inr (drop pos s))"

subsection \<open>The assertion macro\<close>

definition bFILE_PATH_SEPARATOR :: "bool \<Rightarrow> char" where
  "bFILE_PATH_SEPARATOR win32 = (if win32 then CHR 0x5C else CHR ''/'')"

text \<open>
  \<^verbatim>\<open>bTEST_ASSERT(expr)\<close> expanded in a file whose \<^verbatim>\<open>__FILE__\<close> is \<open>file\<close>, on line
  \<open>line\<close>, with \<open>expr\<close> the value of the asserted expression.
\<close>

definition bTEST_ASSERT :: "bool \<Rightarrow> string \<Rightarrow> nat \<Rightarrow> bool \<Rightarrow> outcome" where
  "bTEST_ASSERT win32 file line expr =
     (if \<not> expr then
        (let errorString = file @ '':'' @ to_string line;
             lastSeparator = find_last_of errorString (bFILE_PATH_SEPARATOR win32)
         in case substr errorString (case lastSeparator of None \<Rightarrow> 0 | Some i \<Rightarrow> i) of
              Inl e \<Rightarrow> Throws e
            | Inr errorString' \<Rightarrow> Throws (std_exception errorString'))
      else Returns)"

subsection \<open>Test functions and the registry\<close>

text \<open>
  A test function (\<^verbatim>\<open>bTestFnType\<close>, a pointer to a \<^verbatim>\<open>void()\<close> function) is
  represented by what a call of it does that the runner can observe: the characters it
  sends to \<^verbatim>\<open>std::cout\<close>, and how it ends.
\<close>

type_synonym bTestFnType = "string \<times> outcome"

type_synonym tests_map = "(string \<times> bTestFnType) list"

type_synonym registry = "(string \<times> tests_map) list"

text \<open>\<^verbatim>\<open>contains\<close>, \<^verbatim>\<open>insert_or_assign\<close> and \<^verbatim>\<open>at\<close> of \<^verbatim>\<open>std::unordered_map\<close>.\<close>

fun contains :: "('k \<times> 'v) list \<Rightarrow> 'k \<Rightarrow> bool" where
  "contains [] k = False"
| "contains ((k', v) # m) k = (k' = k \<or> contains m k)"

fun insert_or_assign :: "'k \<Rightarrow> 'v \<Rightarrow> ('k \<times> 'v) list \<Rightarrow> ('k \<times> 'v) list" where
  "insert_or_assign k v [] = [(k, v)]"
| "insert_or_assign k v ((k', v') # m) =
     (if k' = k then (k, v) # m else (k', v') # insert_or_assign k v m)"

text \<open>\<open>None\<close> is the \<^verbatim>\<open>std::out_of_range\<close> that \<^verbatim>\<open>at\<close> throws for a missing key.\<close>

fun at :: "('k \<times> 'v) list \<Rightarrow> 'k \<Rightarrow> 'v option" where
  "at [] k = None"
| "at ((k', v) # m) k = (if k' = k then Some v else at m k)"

text \<open>
  The constructor \<^verbatim>\<open>UnitTest(name, func, group)\<close>, whose only effect is on the map
  behind \<^verbatim>\<open>get_tests()\<close>. The inner map is updated through the reference that
  \<^verbatim>\<open>at\<close> returns, which is written here as storing the updated inner map under the
  same group key.
\<close>

definition UnitTest :: "string \<Rightarrow> bTestFnType \<Rightarrow> string \<Rightarrow> registry \<Rightarrow> registry option" where
  "UnitTest name func groupString reg =
     (let reg1 = (if \<not> contains reg groupString then insert_or_assign groupString [] reg else reg)
      in case at reg1 groupString of
           None \<Rightarrow> None
         | Some tests \<Rightarrow> Some (insert_or_assign groupString (insert_or_assign name func tests) reg1))"

text \<open>
  The static initialisers of a program: one constructor call per \<^verbatim>\<open>bTEST_FUNCTION\<close>,
  as (name, function, group), run in list order on the registry so far.
\<close>

fun register_all :: "(string \<times> bTestFnType \<times> string) list \<Rightarrow> registry \<Rightarrow> registry option" where
  "register_all [] reg = Some reg"
| "register_all ((name, func, groupString) # rs) reg =
     (case UnitTest name func groupString reg of
        None \<Rightarrow> None
      | Some reg' \<Rightarrow> register_all rs reg')"

subsection \<open>The process-wide state\<close>

text \<open>
  The stream buffers \<^verbatim>\<open>std::cout\<close> can point to: the one it starts with (the
  console), the buffer of \<^verbatim>\<open>g_testsLog\<close>, and \<^verbatim>\<open>nullptr\<close>.
\<close>

datatype streambuf = Console | LogFile | Nullptr

record world =
  rdbuf :: streambuf
  console :: string
  testsLog :: string
  g_successes :: nat
  first :: bool
  numTests :: nat

definition initial_world :: world where
  "initial_world =
     \<lparr>rdbuf = Console, console = [], testsLog = [], g_successes = 0,
      first = True, numTests = 0\<rparr>"

text \<open>
  \<^verbatim>\<open>std::cout << s\<close>: the characters go to whatever buffer \<^verbatim>\<open>std::cout\<close> points to;
  with the null buffer they are dropped (the header's changelog: the output is silenced).
  That last case is the documented behaviour, not what the stream does: see the section
  on the build without logging below. It is reached only in a build without logging, by
  a test that prints, and it never changes \<^verbatim>\<open>g_successes\<close> or the cached count.
\<close>

definition cout :: "string \<Rightarrow> world \<Rightarrow> world" where
  "cout s w =
     (case rdbuf w of
        Console \<Rightarrow> w\<lparr>console := console w @ s\<rparr>
      | LogFile \<Rightarrow> w\<lparr>testsLog := testsLog w @ s\<rparr>
      | Nullptr \<Rightarrow> w)"

definition set_rdbuf :: "streambuf \<Rightarrow> world \<Rightarrow> world" where
  "set_rdbuf b w = w\<lparr>rdbuf := b\<rparr>"

definition print_line_separator :: "world \<Rightarrow> world" where
  "print_line_separator w = cout (replicate 80 (CHR ''-'') @ NL) w"

definition get_number_of_tests :: "registry \<Rightarrow> world \<Rightarrow> nat \<times> world" where
  "get_number_of_tests reg w =
     (if first w then
        (let n = foldl (\<lambda>acc (grp, tests). acc + length tests) (numTests w) reg
         in (n, w\<lparr>first := False, numTests := n\<rparr>))
      else (numTests w, w))"

definition print_info :: "registry \<Rightarrow> world \<Rightarrow> world" where
  "print_info reg w =
     (let w1 = print_line_separator w;
          w2 = cout (''INFO:'' @ TAB @
                 ''If all tests pass (or no tests fail), the program will return success.'' @
                 NL @ TAB @ TAB @ ''Otherwise, it will return failure.'' @ NL) w1;
          (n1, w3) = get_number_of_tests reg w2;
          (n2, w4) = get_number_of_tests reg w3;
          w5 = cout (''INFO:'' @ TAB @ ''Found '' @ to_string n1 @ '' test'' @
                 (if n2 = 1 then [] else ''s'') @ '' in '' @ to_string (length reg) @
                 '' group'' @ (if length reg = 1 then ''.'' @ NL else ''s.'' @ NL)) w4
      in print_line_separator w5)"

subsection \<open>The runner\<close>

text \<open>
  The body of the inner loop of \<^verbatim>\<open>run_tests\<close>, for the map entry \<open>(name, test)\<close>:
  from the announcement to \<^verbatim>\<open>idx++\<close>. \<open>coutBuffer\<close> is the buffer saved on entry to
  \<^verbatim>\<open>run_tests\<close>. An exception the handler does not match leaves the loop and the
  function: the result is \<open>Inl\<close> with the thrown object and the world at that moment.
\<close>

definition run_test ::
    "bool \<Rightarrow> streambuf \<Rightarrow> string \<times> bTestFnType \<Rightarrow> nat \<times> world \<Rightarrow> thrown \<times> world + nat \<times> world" where
  "run_test no_log coutBuffer entry s =
     (case (entry, s) of ((name, test), (idx, w)) \<Rightarrow>
       (let w1 = cout (TAB @ ''['' @ to_string (idx + 1) @ ''] : '' @ QUOTE @ name @ QUOTE @ '' '') w;
            w2 = (if \<not> no_log
                  then cout (''Test '' @ QUOTE @ name @ QUOTE @ '' log:'' @ NL @ NL)
                         (print_line_separator (set_rdbuf LogFile w1))
                  else set_rdbuf Nullptr w1);
            w3 = cout (fst test) w2
        in case snd test of
             Returns \<Rightarrow>
               (let w4 = (if \<not> no_log
                          then print_line_separator (cout (NL @ ''passed.'' @ NL) w3)
                          else w3);
                    w5 = cout (''passed.'' @ NL) (set_rdbuf coutBuffer w4)
                in Inr (idx + 1, w5\<lparr>g_successes := g_successes w5 + 1\<rparr>))
           | Throws e \<Rightarrow>
               (case catch_std_exception e of
                  Some what \<Rightarrow>
                    (let w4 = (if \<not> no_log
                               then print_line_separator
                                      (cout (NL @ ''failed at '' @ QUOTE @ what @ QUOTE @ ''.'' @ NL) w3)
                               else w3);
                         w5 = cout (''failed at '' @ QUOTE @ what @ QUOTE @ ''.'' @ NL)
                                (set_rdbuf coutBuffer w4)
                     in Inr (idx + 1, w5))
                | None \<Rightarrow> Inl (e, w3))))"

text \<open>The inner loop, over the tests of one group.\<close>

fun run_group ::
    "bool \<Rightarrow> streambuf \<Rightarrow> tests_map \<Rightarrow> nat \<times> world \<Rightarrow> thrown \<times> world + nat \<times> world" where
  "run_group no_log coutBuffer [] s = Inr s"
| "run_group no_log coutBuffer (entry # tests) s =
     (case run_test no_log coutBuffer entry s of
        Inl a \<Rightarrow> Inl a
      | Inr s' \<Rightarrow> run_group no_log coutBuffer tests s')"

text \<open>The outer loop, over the groups.\<close>

fun run_groups ::
    "bool \<Rightarrow> streambuf \<Rightarrow> registry \<Rightarrow> nat \<times> world \<Rightarrow> thrown \<times> world + nat \<times> world" where
  "run_groups no_log coutBuffer [] s = Inr s"
| "run_groups no_log coutBuffer ((grp, tests) # groups) s =
     (case s of (idx, w) \<Rightarrow>
       (let w1 = cout (''Group: '' @ QUOTE @ grp @ QUOTE @ NL) w;
            w2 = (if \<not> no_log
                  then set_rdbuf coutBuffer
                         (cout (''Group: '' @ QUOTE @ grp @ QUOTE @ NL) (set_rdbuf LogFile w1))
                  else w1)
        in case run_group no_log coutBuffer tests (idx, w2) of
             Inl a \<Rightarrow> Inl a
           | Inr s' \<Rightarrow> run_groups no_log coutBuffer groups s'))"

definition run_tests :: "bool \<Rightarrow> registry \<Rightarrow> world \<Rightarrow> thrown \<times> world + world" where
  "run_tests no_log reg w =
     (let coutBuffer = rdbuf w;
          w1 = cout (''RUNNING TESTS...'' @ NL) w
      in case run_groups no_log coutBuffer reg (0, w1) of
           Inl a \<Rightarrow> Inl a
         | Inr (idx, w') \<Rightarrow> Inr w')"

subsection \<open>The summary and the entry point\<close>

text \<open>The two lines between the separators of \<^verbatim>\<open>print_summary\<close>.\<close>

definition summary_text :: "registry \<Rightarrow> world \<Rightarrow> world" where
  "summary_text reg w =
     (let w1 = print_line_separator w;
          w2 = cout (''SUMMARY:'' @ NL) w1;
          (n, w3) = get_number_of_tests reg w2;
          w4 = cout (TAB @ ''Passed '' @ to_string (g_successes w3) @ '' out of '' @
                 to_string n @ '' tests.'' @ NL) w3
      in print_line_separator w4)"

definition print_summary :: "bool \<Rightarrow> registry \<Rightarrow> world \<Rightarrow> world" where
  "print_summary no_log reg w =
     (let w1 = summary_text reg w
      in if \<not> no_log then
           (let coutBuffer = rdbuf w1;
                w2 = set_rdbuf LogFile w1;
                w3 = summary_text reg w2
            in set_rdbuf coutBuffer w3)
         else w1)"

datatype ReturnValue = pass | fail

fun static_cast_int :: "ReturnValue \<Rightarrow> int" where
  "static_cast_int pass = 0"
| "static_cast_int fail = - 1"

text \<open>
  How the process ends: \<^verbatim>\<open>main\<close> returns a value, or an exception leaves
  \<^verbatim>\<open>main\<close> and the process is terminated without an exit status of its own.
\<close>

datatype ending = Exited int | Terminated thrown

definition main :: "bool \<Rightarrow> registry \<Rightarrow> world \<Rightarrow> ending \<times> world" where
  "main no_log reg w =
     (let w1 = print_info reg w
      in if length reg = 0 then (Exited (static_cast_int pass), w1)
         else
           (case run_tests no_log reg w1 of
              Inl (e, w2) \<Rightarrow> (Terminated e, w2)
            | Inr w2 \<Rightarrow>
                (let w3 = print_summary no_log reg w2;
                     (n, w4) = get_number_of_tests reg w3
                 in (if g_successes w4 = n
                     then Exited (static_cast_int pass)
                     else Exited (static_cast_int fail), w4))))"

subsection \<open>Notions used in the statements\<close>

text \<open>
  A way of ending that leaves the \<^verbatim>\<open>try\<close> block of the runner without being caught:
  a thrown object that the handler does not match.
\<close>

fun escapes :: "outcome \<Rightarrow> bool" where
  "escapes Returns = False"
| "escapes (Throws e) = (catch_std_exception e = None)"

definition all_handled :: "registry \<Rightarrow> bool" where
  "all_handled reg =
     list_all (\<lambda>(grp, tests). list_all (\<lambda>(name, test). \<not> escapes (snd test)) tests) reg"

text \<open>
  An association list stands for a \<^verbatim>\<open>std::unordered_map\<close> when no key occurs twice;
  then the length of the list is the \<^verbatim>\<open>size()\<close> of the map.
\<close>

definition unique_keys :: "('k \<times> 'v) list \<Rightarrow> bool" where
  "unique_keys m = distinct (map fst m)"

definition well_formed :: "registry \<Rightarrow> bool" where
  "well_formed reg = (unique_keys reg \<and> list_all (\<lambda>(grp, tests). unique_keys tests) reg)"

text \<open>The function stored for a (group, name) pair, if any.\<close>

definition find_test :: "registry \<Rightarrow> string \<Rightarrow> string \<Rightarrow> bTestFnType option" where
  "find_test reg groupString nameString =
     (case at reg groupString of None \<Rightarrow> None | Some tests \<Rightarrow> at tests nameString)"

text \<open>The sum of the sizes of the groups.\<close>

definition total_tests :: "registry \<Rightarrow> nat" where
  "total_tests reg = sum_list (map (\<lambda>p. length (snd p)) reg)"

text \<open>The number of tests of a group, and of a registry, whose function returns normally.\<close>

definition passing :: "tests_map \<Rightarrow> nat" where
  "passing tests = length (filter (\<lambda>entry. snd (snd entry) = Returns) tests)"

definition total_passing :: "registry \<Rightarrow> nat" where
  "total_passing reg = sum_list (map (\<lambda>p. passing (snd p)) reg)"

text \<open>
  The characters the runner itself sends to the buffer it saved on entry: per test the
  announcement and the result line, per group the header before them.
\<close>

fun status_line :: "nat \<Rightarrow> string \<Rightarrow> outcome \<Rightarrow> string" where
  "status_line idx name Returns =
     TAB @ ''['' @ to_string (idx + 1) @ ''] : '' @ QUOTE @ name @ QUOTE @ '' '' @
     ''passed.'' @ NL"
| "status_line idx name (Throws e) =
     TAB @ ''['' @ to_string (idx + 1) @ ''] : '' @ QUOTE @ name @ QUOTE @ '' '' @
     (case catch_std_exception e of
        Some what \<Rightarrow> ''failed at '' @ QUOTE @ what @ QUOTE @ ''.'' @ NL
      | None \<Rightarrow> [])"

fun group_lines :: "nat \<Rightarrow> tests_map \<Rightarrow> string" where
  "group_lines idx [] = []"
| "group_lines idx ((name, test) # tests) =
     status_line idx name (snd test) @ group_lines (idx + 1) tests"

fun run_lines :: "nat \<Rightarrow> registry \<Rightarrow> string" where
  "run_lines idx [] = []"
| "run_lines idx ((grp, tests) # groups) =
     ''Group: '' @ QUOTE @ grp @ QUOTE @ NL @ group_lines idx tests @
     run_lines (idx + length tests) groups"

text \<open>The world in which a loop stands when it is left, normally or by an exception.\<close>

fun world_of :: "thrown \<times> world + nat \<times> world \<Rightarrow> world" where
  "world_of (Inl (e, w)) = w"
| "world_of (Inr (idx, w)) = w"

text \<open>Tests that send nothing to \<^verbatim>\<open>std::cout\<close>.\<close>

definition all_silent :: "registry \<Rightarrow> bool" where
  "all_silent reg =
     list_all (\<lambda>(grp, tests). list_all (\<lambda>(name, test). fst test = []) tests) reg"

text \<open>
  The characters the log receives from the loop body for one test, in a build with
  logging: separator, heading, what the test printed, the result and a separator.
\<close>

fun result_text :: "outcome \<Rightarrow> string" where
  "result_text Returns = ''passed.'' @ NL"
| "result_text (Throws e) =
     (case catch_std_exception e of
        Some what \<Rightarrow> ''failed at '' @ QUOTE @ what @ QUOTE @ ''.'' @ NL
      | None \<Rightarrow> [])"

definition log_block :: "string \<Rightarrow> bTestFnType \<Rightarrow> string" where
  "log_block name test =
     replicate 80 (CHR ''-'') @ NL @ ''Test '' @ QUOTE @ name @ QUOTE @ '' log:'' @ NL @ NL @
     fst test @ NL @ result_text (snd test) @ replicate 80 (CHR ''-'') @ NL"

section \<open>The build without logging, with the error state of the stream\<close>

text \<open>
  With \<^verbatim>\<open>bTESTS_NO_LOG\<close> defined the runner calls \<^verbatim>\<open>std::cout.set_rdbuf(nullptr)\<close>
  before each test and \<^verbatim>\<open>std::cout.set_rdbuf(coutBuffer)\<close> after it. The header
  documents that the output of the tests is discarded and that the results are still
  printed, and the function \<open>cout\<close> above follows that documentation. The stream does
  something else, because \<^verbatim>\<open>set_rdbuf\<close> only stores the pointer and never touches the
  error state: while the buffer is the null pointer, inserting characters dereferences
  it, which kills the process; inserting a number finds no buffer to write to and sets
  \<^verbatim>\<open>badbit\<close>; and once \<^verbatim>\<open>badbit\<close> is set every insertion returns at its sentry
  without writing, also after the buffer has been put back. This section embeds the
  runner of that build once more, with the error state as a field of the world and with
  what a test sends to \<^verbatim>\<open>std::cout\<close> kept apart by kind.
\<close>

datatype insertion = Chars string | Number nat

record stream_world = world +
  badbit :: bool

definition initial_stream_world :: stream_world where
  "initial_stream_world =
     \<lparr>rdbuf = Console, console = [], testsLog = [], g_successes = 0,
      first = True, numTests = 0, badbit = False\<rparr>"

text \<open>
  One insertion. The result is \<open>Inl\<close> with the world of that moment when the process is
  killed.
\<close>

fun insert_one :: "insertion \<Rightarrow> stream_world \<Rightarrow> stream_world + stream_world" where
  "insert_one (Chars s) w =
     (if badbit w then Inr w
      else case rdbuf w of
             Console \<Rightarrow> Inr (w\<lparr>console := console w @ s\<rparr>)
           | LogFile \<Rightarrow> Inr (w\<lparr>testsLog := testsLog w @ s\<rparr>)
           | Nullptr \<Rightarrow> Inl w)"
| "insert_one (Number n) w =
     (if badbit w then Inr w
      else case rdbuf w of
             Console \<Rightarrow> Inr (w\<lparr>console := console w @ to_string n\<rparr>)
           | LogFile \<Rightarrow> Inr (w\<lparr>testsLog := testsLog w @ to_string n\<rparr>)
           | Nullptr \<Rightarrow> Inr (w\<lparr>badbit := True\<rparr>))"

fun insert_all :: "insertion list \<Rightarrow> stream_world \<Rightarrow> stream_world + stream_world" where
  "insert_all [] w = Inr w"
| "insert_all (i # rest) w =
     (case insert_one i w of
        Inl w' \<Rightarrow> Inl w'
      | Inr w' \<Rightarrow> insert_all rest w')"

text \<open>How a run is left early: by an exception nobody catches, or killed.\<close>

datatype abort = Uncaught thrown | Killed

text \<open>
  A test function here is the list of its insertions into \<^verbatim>\<open>std::cout\<close> and the way
  it ends after them.
\<close>

type_synonym test_insertions = "insertion list \<times> outcome"

text \<open>
  The body of the inner loop of \<^verbatim>\<open>run_tests\<close> as compiled with \<^verbatim>\<open>bTESTS_NO_LOG\<close>:
  the announcement, \<^verbatim>\<open>set_rdbuf(nullptr)\<close>, the call, and in the \<^verbatim>\<open>try\<close> block or
  in the handler \<^verbatim>\<open>set_rdbuf(coutBuffer)\<close> and the result line.
\<close>

definition run_test_NO_LOG ::
    "streambuf \<Rightarrow> string \<times> test_insertions \<Rightarrow> nat \<times> stream_world \<Rightarrow>
       abort \<times> stream_world + nat \<times> stream_world" where
  "run_test_NO_LOG coutBuffer entry s =
     (case (entry, s) of ((name, test), (idx, w)) \<Rightarrow>
       (case insert_all [Chars (TAB @ ''[''), Number (idx + 1), Chars (''] : '' @ QUOTE),
                         Chars name, Chars (QUOTE @ '' '')] w of
          Inl k \<Rightarrow> Inl (Killed, k)
        | Inr w1 \<Rightarrow>
            (case insert_all (fst test) (w1\<lparr>rdbuf := Nullptr\<rparr>) of
               Inl k \<Rightarrow> Inl (Killed, k)
             | Inr w3 \<Rightarrow>
                 (case snd test of
                    Returns \<Rightarrow>
                      (case insert_all [Chars (''passed.'' @ NL)] (w3\<lparr>rdbuf := coutBuffer\<rparr>) of
                         Inl k \<Rightarrow> Inl (Killed, k)
                       | Inr w5 \<Rightarrow> Inr (idx + 1, w5\<lparr>g_successes := g_successes w5 + 1\<rparr>))
                  | Throws e \<Rightarrow>
                      (case catch_std_exception e of
                         Some what \<Rightarrow>
                           (case insert_all [Chars (''failed at '' @ QUOTE), Chars what,
                                             Chars (QUOTE @ ''.'' @ NL)]
                                   (w3\<lparr>rdbuf := coutBuffer\<rparr>) of
                              Inl k \<Rightarrow> Inl (Killed, k)
                            | Inr w5 \<Rightarrow> Inr (idx + 1, w5))
                       | None \<Rightarrow> Inl (Uncaught e, w3))))))"

fun run_group_NO_LOG ::
    "streambuf \<Rightarrow> (string \<times> test_insertions) list \<Rightarrow> nat \<times> stream_world \<Rightarrow>
       abort \<times> stream_world + nat \<times> stream_world" where
  "run_group_NO_LOG coutBuffer [] s = Inr s"
| "run_group_NO_LOG coutBuffer (entry # tests) s =
     (case run_test_NO_LOG coutBuffer entry s of
        Inl a \<Rightarrow> Inl a
      | Inr s' \<Rightarrow> run_group_NO_LOG coutBuffer tests s')"

fun run_groups_NO_LOG ::
    "streambuf \<Rightarrow> (string \<times> (string \<times> test_insertions) list) list \<Rightarrow> nat \<times> stream_world \<Rightarrow>
       abort \<times> stream_world + nat \<times> stream_world" where
  "run_groups_NO_LOG coutBuffer [] s = Inr s"
| "run_groups_NO_LOG coutBuffer ((grp, tests) # groups) s =
     (case s of (idx, w) \<Rightarrow>
       (case insert_all [Chars (''Group: '' @ QUOTE), Chars grp, Chars (QUOTE @ NL)] w of
          Inl k \<Rightarrow> Inl (Killed, k)
        | Inr w1 \<Rightarrow>
            (case run_group_NO_LOG coutBuffer tests (idx, w1) of
               Inl a \<Rightarrow> Inl a
             | Inr s' \<Rightarrow> run_groups_NO_LOG coutBuffer groups s')))"

definition run_tests_NO_LOG ::
    "(string \<times> (string \<times> test_insertions) list) list \<Rightarrow> stream_world \<Rightarrow>
       abort \<times> stream_world + stream_world" where
  "run_tests_NO_LOG reg w =
     (let coutBuffer = rdbuf w
      in case insert_all [Chars (''RUNNING TESTS...'' @ NL)] w of
           Inl k \<Rightarrow> Inl (Killed, k)
         | Inr w1 \<Rightarrow>
             (case run_groups_NO_LOG coutBuffer reg (0, w1) of
                Inl a \<Rightarrow> Inl a
              | Inr (idx, w') \<Rightarrow> Inr w'))"

section \<open>Auxiliary facts\<close>

subsection \<open>What the output primitives leave unchanged\<close>

lemma cout_fields [simp]:
  "rdbuf (cout s w) = rdbuf w"
  "g_successes (cout s w) = g_successes w"
  "first (cout s w) = first w"
  "numTests (cout s w) = numTests w"
  by (simp_all add: cout_def split: streambuf.splits)

lemma cout_console [simp]:
  "console (cout s w) = (if rdbuf w = Console then console w @ s else console w)"
  by (simp add: cout_def split: streambuf.splits)

lemma cout_testsLog [simp]:
  "testsLog (cout s w) = (if rdbuf w = LogFile then testsLog w @ s else testsLog w)"
  by (simp add: cout_def split: streambuf.splits)

lemma set_rdbuf_fields [simp]:
  "rdbuf (set_rdbuf b w) = b"
  "console (set_rdbuf b w) = console w"
  "testsLog (set_rdbuf b w) = testsLog w"
  "g_successes (set_rdbuf b w) = g_successes w"
  "first (set_rdbuf b w) = first w"
  "numTests (set_rdbuf b w) = numTests w"
  by (simp_all add: set_rdbuf_def)

lemma print_line_separator_fields [simp]:
  "rdbuf (print_line_separator w) = rdbuf w"
  "g_successes (print_line_separator w) = g_successes w"
  "first (print_line_separator w) = first w"
  "numTests (print_line_separator w) = numTests w"
  by (simp_all add: print_line_separator_def)

lemma foldl_count:
  "foldl (\<lambda>acc (grp, tests). acc + length tests) a reg = a + total_tests reg"
  by (induction reg arbitrary: a) (auto simp: case_prod_beta total_tests_def)

lemma get_number_of_tests_fresh:
  "first w \<Longrightarrow> get_number_of_tests reg w =
     (numTests w + total_tests reg,
      w\<lparr>first := False, numTests := numTests w + total_tests reg\<rparr>)"
  by (simp add: get_number_of_tests_def foldl_count Let_def)

lemma get_number_of_tests_cached:
  "\<not> first w \<Longrightarrow> get_number_of_tests reg w = (numTests w, w)"
  by (simp add: get_number_of_tests_def)

lemma get_number_of_tests_fields [simp]:
  "rdbuf (snd (get_number_of_tests reg w)) = rdbuf w"
  "console (snd (get_number_of_tests reg w)) = console w"
  "testsLog (snd (get_number_of_tests reg w)) = testsLog w"
  "g_successes (snd (get_number_of_tests reg w)) = g_successes w"
  by (simp_all add: get_number_of_tests_def Let_def)

lemma print_info_fields:
  "rdbuf (print_info reg w) = rdbuf w"
  "g_successes (print_info reg w) = g_successes w"
  by (simp_all add: print_info_def Let_def case_prod_beta)

lemma print_info_cache:
  "first w \<Longrightarrow> numTests w = 0 \<Longrightarrow>
     \<not> first (print_info reg w) \<and>
     numTests (print_info reg w) = total_tests reg"
  by (simp add: print_info_def Let_def get_number_of_tests_fresh get_number_of_tests_cached)

subsection \<open>One test, one group, all groups\<close>

lemma run_test_Inr:
  assumes "run_test no_log cb (name, test) (idx, w) = Inr (idx', w')"
  shows "idx' = idx + 1 \<and> rdbuf w' = cb \<and> first w' = first w \<and> numTests w' = numTests w \<and>
     g_successes w' = g_successes w + (if snd test = Returns then 1 else 0) \<and> \<not> escapes (snd test)"
  using assms
  by (cases no_log) (auto simp: run_test_def Let_def split: outcome.splits option.splits)

lemma run_test_Inl:
  assumes "run_test no_log cb (name, test) (idx, w) = Inl (e, w')"
  shows "snd test = Throws e \<and> catch_std_exception e = None \<and> first w' = first w \<and>
     numTests w' = numTests w \<and> g_successes w' = g_successes w"
  using assms
  by (cases no_log) (auto simp: run_test_def Let_def split: outcome.splits option.splits)

lemma run_test_handled:
  "\<not> escapes (snd test) \<Longrightarrow> \<exists>w'. run_test no_log cb (name, test) (idx, w) = Inr (idx + 1, w')"
  by (cases "snd test") (auto simp: run_test_def Let_def split: option.splits)


lemma passing_simps [simp]:
  "passing [] = 0"
  "passing ((name, test) # tests) = (if snd test = Returns then 1 else 0) + passing tests"
  by (simp_all add: passing_def)

lemma passing_le: "passing tests \<le> length tests"
  by (simp add: passing_def)

lemma total_passing_le: "total_passing reg \<le> total_tests reg"
  unfolding total_passing_def total_tests_def
  by (induction reg) (auto intro: add_mono passing_le)

lemma run_group_Inr:
  "run_group no_log cb tests (idx, w) = Inr (idx', w') \<Longrightarrow>
     idx' = idx + length tests \<and> first w' = first w \<and> numTests w' = numTests w \<and>
     g_successes w' = g_successes w + passing tests \<and>
     rdbuf w' = (if tests = [] then rdbuf w else cb) \<and>
     list_all (\<lambda>(name, test). \<not> escapes (snd test)) tests"
proof (induction tests arbitrary: idx w)
  case Nil
  then show ?case by simp
next
  case (Cons entry tests)
  obtain name test where entry: "entry = (name, test)" by (cases entry)
  from Cons.prems obtain s1 where
    s1: "run_test no_log cb (name, test) (idx, w) = Inr s1"
    and rest: "run_group no_log cb tests s1 = Inr (idx', w')"
    by (auto simp: entry split: sum.splits)
  obtain idx1 w1 where s1_eq: "s1 = (idx1, w1)" by (cases s1)
  note step = run_test_Inr [OF s1 [unfolded s1_eq]]
  note ih = Cons.IH [OF rest [unfolded s1_eq]]
  from step ih show ?case by (auto simp: entry)
qed

lemma run_group_Inl:
  "run_group no_log cb tests (idx, w) = Inl (e, w') \<Longrightarrow>
     first w' = first w \<and> numTests w' = numTests w \<and>
     g_successes w \<le> g_successes w' \<and> g_successes w' < g_successes w + length tests \<and>
     catch_std_exception e = None \<and> (\<exists>entry \<in> set tests. snd (snd entry) = Throws e)"
proof (induction tests arbitrary: idx w)
  case Nil
  then show ?case by simp
next
  case (Cons entry tests)
  obtain name test where entry: "entry = (name, test)" by (cases entry)
  show ?case
  proof (cases "run_test no_log cb (name, test) (idx, w)")
    case (Inl a)
    with Cons.prems have "run_test no_log cb (name, test) (idx, w) = Inl (e, w')"
      by (simp add: entry)
    from run_test_Inl [OF this] show ?thesis by (auto simp: entry)
  next
    case (Inr s1)
    obtain idx1 w1 where s1_eq: "s1 = (idx1, w1)" by (cases s1)
    from Cons.prems Inr have rest: "run_group no_log cb tests (idx1, w1) = Inl (e, w')"
      by (simp add: entry s1_eq)
    note step = run_test_Inr [OF Inr [unfolded s1_eq]]
    note ih = Cons.IH [OF rest]
    from step ih show ?thesis by (auto simp: entry split: if_splits)
  qed
qed

lemma run_group_handled:
  "list_all (\<lambda>(name, test). \<not> escapes (snd test)) tests \<Longrightarrow>
     \<exists>w'. run_group no_log cb tests (idx, w) = Inr (idx + length tests, w')"
proof (induction tests arbitrary: idx w)
  case Nil
  then show ?case by simp
next
  case (Cons entry tests)
  obtain name test where entry: "entry = (name, test)" by (cases entry)
  from Cons.prems have "\<not> escapes (snd test)" by (simp add: entry)
  from run_test_handled [OF this] obtain w1 where
    "run_test no_log cb (name, test) (idx, w) = Inr (idx + 1, w1)" by blast
  moreover from Cons.prems Cons.IH [of "idx + 1" w1] obtain w' where
    "run_group no_log cb tests (idx + 1, w1) = Inr (idx + 1 + length tests, w')" by auto
  ultimately show ?case by (auto simp: entry)
qed


lemma total_simps [simp]:
  "total_tests [] = 0"
  "total_tests ((grp, tests) # reg) = length tests + total_tests reg"
  "total_passing [] = 0"
  "total_passing ((grp, tests) # reg) = passing tests + total_passing reg"
  by (simp_all add: total_tests_def total_passing_def)

lemma all_handled_simps [simp]:
  "all_handled [] = True"
  "all_handled ((grp, tests) # reg) =
     (list_all (\<lambda>(name, test). \<not> escapes (snd test)) tests \<and> all_handled reg)"
  by (simp_all add: all_handled_def)

lemma run_groups_Inr:
  "run_groups no_log cb reg (idx, w) = Inr (idx', w') \<Longrightarrow>
     idx' = idx + total_tests reg \<and> first w' = first w \<and> numTests w' = numTests w \<and>
     g_successes w' = g_successes w + total_passing reg \<and>
     (rdbuf w = cb \<longrightarrow> rdbuf w' = cb) \<and> all_handled reg"
proof (induction reg arbitrary: idx w)
  case Nil
  then show ?case by simp
next
  case (Cons g reg)
  obtain grp tests where g: "g = (grp, tests)" by (cases g)
  define w2 where "w2 =
    (let w1 = cout (''Group: '' @ QUOTE @ grp @ QUOTE @ NL) w
     in if \<not> no_log
        then set_rdbuf cb (cout (''Group: '' @ QUOTE @ grp @ QUOTE @ NL) (set_rdbuf LogFile w1))
        else w1)"
  have w2: "first w2 = first w" "numTests w2 = numTests w" "g_successes w2 = g_successes w"
    "rdbuf w = cb \<longrightarrow> rdbuf w2 = cb"
    by (simp_all add: w2_def Let_def)
  from Cons.prems obtain s1 where
    s1: "run_group no_log cb tests (idx, w2) = Inr s1"
    and rest: "run_groups no_log cb reg s1 = Inr (idx', w')"
    by (auto simp: g w2_def Let_def split: sum.splits)
  obtain idx1 w1 where s1_eq: "s1 = (idx1, w1)" by (cases s1)
  note step = run_group_Inr [OF s1 [unfolded s1_eq]]
  note ih = Cons.IH [OF rest [unfolded s1_eq]]
  from step ih w2 show ?case by (auto simp: g split: if_splits)
qed

lemma run_groups_Inl:
  "run_groups no_log cb reg (idx, w) = Inl (e, w') \<Longrightarrow>
     first w' = first w \<and> numTests w' = numTests w \<and>
     g_successes w \<le> g_successes w' \<and> g_successes w' < g_successes w + total_tests reg \<and>
     catch_std_exception e = None \<and> \<not> all_handled reg"
proof (induction reg arbitrary: idx w)
  case Nil
  then show ?case by simp
next
  case (Cons g reg)
  obtain grp tests where g: "g = (grp, tests)" by (cases g)
  define w2 where "w2 =
    (let w1 = cout (''Group: '' @ QUOTE @ grp @ QUOTE @ NL) w
     in if \<not> no_log
        then set_rdbuf cb (cout (''Group: '' @ QUOTE @ grp @ QUOTE @ NL) (set_rdbuf LogFile w1))
        else w1)"
  have w2: "first w2 = first w" "numTests w2 = numTests w" "g_successes w2 = g_successes w"
    by (simp_all add: w2_def Let_def)
  show ?case
  proof (cases "run_group no_log cb tests (idx, w2)")
    case (Inl a)
    with Cons.prems have "run_group no_log cb tests (idx, w2) = Inl (e, w')"
      by (simp add: g w2_def Let_def)
    from run_group_Inl [OF this] w2 have
      "first w' = first w \<and> numTests w' = numTests w \<and>
       g_successes w \<le> g_successes w' \<and> g_successes w' < g_successes w + length tests \<and>
       catch_std_exception e = None \<and> (\<exists>entry \<in> set tests. snd (snd entry) = Throws e)"
      by simp
    moreover from this have "\<not> list_all (\<lambda>(name, test). \<not> escapes (snd test)) tests"
      by (force simp: list_all_iff)
    ultimately show ?thesis by (auto simp: g)
  next
    case (Inr s1)
    obtain idx1 w1 where s1_eq: "s1 = (idx1, w1)" by (cases s1)
    from Cons.prems Inr have rest: "run_groups no_log cb reg (idx1, w1) = Inl (e, w')"
      by (simp add: g s1_eq w2_def Let_def)
    note step = run_group_Inr [OF Inr [unfolded s1_eq]]
    note ih = Cons.IH [OF rest]
    have "passing tests \<le> length tests" by (rule passing_le)
    with step ih w2 show ?thesis by (auto simp: g)
  qed
qed

lemma run_groups_handled:
  "all_handled reg \<Longrightarrow> \<exists>w'. run_groups no_log cb reg (idx, w) = Inr (idx + total_tests reg, w')"
proof (induction reg arbitrary: idx w)
  case Nil
  then show ?case by simp
next
  case (Cons g reg)
  obtain grp tests where g: "g = (grp, tests)" by (cases g)
  define w2 where "w2 =
    (let w1 = cout (''Group: '' @ QUOTE @ grp @ QUOTE @ NL) w
     in if \<not> no_log
        then set_rdbuf cb (cout (''Group: '' @ QUOTE @ grp @ QUOTE @ NL) (set_rdbuf LogFile w1))
        else w1)"
  from Cons.prems have h: "list_all (\<lambda>(name, test). \<not> escapes (snd test)) tests" "all_handled reg"
    by (simp_all add: g)
  from run_group_handled [OF h(1)] obtain w1 where
    w1: "run_group no_log cb tests (idx, w2) = Inr (idx + length tests, w1)" by blast
  from Cons.IH [OF h(2)] obtain w' where
    "run_groups no_log cb reg (idx + length tests, w1) = Inr (idx + length tests + total_tests reg, w')"
    by blast
  with w1 show ?case by (auto simp: g w2_def Let_def add.assoc)
qed

subsection \<open>The whole run and the entry point\<close>

lemma run_tests_Inr:
  assumes "run_tests no_log reg w = Inr w'"
  shows "first w' = first w \<and> numTests w' = numTests w \<and>
     g_successes w' = g_successes w + total_passing reg \<and> rdbuf w' = rdbuf w \<and> all_handled reg"
proof -
  from assms obtain idx' where
    "run_groups no_log (rdbuf w) reg (0, cout (''RUNNING TESTS...'' @ NL) w) = Inr (idx', w')"
    by (auto simp: run_tests_def Let_def split: sum.splits)
  from run_groups_Inr [OF this] show ?thesis by simp
qed

lemma run_tests_Inl:
  assumes "run_tests no_log reg w = Inl (e, w')"
  shows "first w' = first w \<and> numTests w' = numTests w \<and>
     g_successes w \<le> g_successes w' \<and> g_successes w' < g_successes w + total_tests reg \<and>
     catch_std_exception e = None \<and> \<not> all_handled reg"
proof -
  from assms have
    "run_groups no_log (rdbuf w) reg (0, cout (''RUNNING TESTS...'' @ NL) w) = Inl (e, w')"
    by (auto simp: run_tests_def Let_def split: sum.splits)
  from run_groups_Inl [OF this] show ?thesis by simp
qed

lemma run_tests_handled:
  assumes "all_handled reg"
  shows "\<exists>w'. run_tests no_log reg w = Inr w'"
proof -
  from run_groups_handled [OF assms] obtain w' where
    "run_groups no_log (rdbuf w) reg (0, cout (''RUNNING TESTS...'' @ NL) w) =
       Inr (0 + total_tests reg, w')"
    by blast
  then show ?thesis by (simp add: run_tests_def Let_def)
qed

lemma summary_text_fields:
  assumes "\<not> first w"
  shows "first (summary_text reg w) = first w" "numTests (summary_text reg w) = numTests w"
    "g_successes (summary_text reg w) = g_successes w" "rdbuf (summary_text reg w) = rdbuf w"
  using assms by (simp_all add: summary_text_def Let_def get_number_of_tests_cached)

lemma print_summary_fields:
  assumes "\<not> first w"
  shows "first (print_summary no_log reg w) = first w"
    "numTests (print_summary no_log reg w) = numTests w"
    "g_successes (print_summary no_log reg w) = g_successes w"
    "rdbuf (print_summary no_log reg w) = rdbuf w"
  using assms by (simp_all add: print_summary_def Let_def summary_text_fields)

lemma print_summary_g_successes:
  "g_successes (print_summary no_log reg w) = g_successes w"
  by (simp add: print_summary_def summary_text_def Let_def case_prod_beta)

lemma initial_world_fields [simp]:
  "rdbuf initial_world = Console" "console initial_world = []" "testsLog initial_world = []"
  "g_successes initial_world = 0" "first initial_world" "numTests initial_world = 0"
  by (simp_all add: initial_world_def)

lemma get_number_of_tests_initial:
  "fst (get_number_of_tests reg initial_world) = total_tests reg"
  by (simp add: get_number_of_tests_fresh)

lemma main_empty:
  "main no_log [] w = (Exited (static_cast_int pass), print_info [] w)"
  by (simp add: main_def Let_def)

lemma main_Inr:
  assumes "reg \<noteq> []" and "run_tests no_log reg (print_info reg initial_world) = Inr w2"
  shows "main no_log reg initial_world =
     (Exited (static_cast_int (if total_passing reg = total_tests reg then pass else fail)),
      print_summary no_log reg w2) \<and>
     g_successes (print_summary no_log reg w2) = total_passing reg"
proof -
  have c: "\<not> first (print_info reg initial_world)"
    "numTests (print_info reg initial_world) = total_tests reg"
    using print_info_cache [of initial_world reg] by simp_all
  note r = run_tests_Inr [OF assms(2)]
  from r c have w2: "\<not> first w2" "numTests w2 = total_tests reg"
    "g_successes w2 = total_passing reg"
    by (simp_all add: print_info_fields)
  let ?w3 = "print_summary no_log reg w2"
  from w2 have w3: "\<not> first ?w3" "numTests ?w3 = total_tests reg"
    "g_successes ?w3 = total_passing reg"
    by (simp_all add: print_summary_fields)
  then have "get_number_of_tests reg ?w3 = (total_tests reg, ?w3)"
    by (simp add: get_number_of_tests_cached)
  with assms w3 show ?thesis
    by (simp add: main_def Let_def)
qed

lemma main_Inl:
  assumes "run_tests no_log reg (print_info reg initial_world) = Inl (e, w2)"
  shows "main no_log reg initial_world = (Terminated e, w2)"
proof -
  from run_tests_Inl [OF assms] have "\<not> all_handled reg" by simp
  then have "reg \<noteq> []" by auto
  with assms show ?thesis by (simp add: main_def Let_def)
qed


subsection \<open>The assertion macro\<close>


lemma find_last_of_None_iff: "find_last_of s c = None \<longleftrightarrow> c \<notin> set s"
  by (induction s) (auto split: option.splits)

lemma find_last_of_None: "c \<notin> set s \<Longrightarrow> find_last_of s c = None"
  by (simp add: find_last_of_None_iff)

lemma find_last_of_append:
  "c \<notin> set ys \<Longrightarrow> find_last_of (xs @ ys) c = find_last_of xs c"
  by (induction xs) (auto simp: find_last_of_None)

lemma find_last_of_Some:
  "find_last_of s c = Some i \<Longrightarrow> i < length s \<and> s ! i = c \<and> c \<notin> set (drop (Suc i) s)"
  by (induction s arbitrary: i) (auto split: option.splits if_splits simp: find_last_of_None_iff)

lemma to_string_digits: "set (to_string n) \<subseteq> set ''0123456789''"
proof (induction n rule: to_string.induct)
  case (1 n)
  have d: "\<And>k. k < 10 \<Longrightarrow> ''0123456789'' ! k \<in> set ''0123456789''"
    by (rule nth_mem) simp
  show ?case
  proof (cases "n < 10")
    case True
    with d [of n] show ?thesis by (subst to_string.simps) simp
  next
    case False
    with "1" d [of "n mod 10"] show ?thesis by (subst to_string.simps) simp
  qed
qed

lemma separator_not_in_suffix:
  "bFILE_PATH_SEPARATOR win32 \<notin> set ('':'' @ to_string ln)"
  using to_string_digits [of ln] by (auto simp: bFILE_PATH_SEPARATOR_def)

lemma bTEST_ASSERT_False:
  "bTEST_ASSERT win32 file ln False =
     Throws (std_exception
       (drop (case find_last_of file (bFILE_PATH_SEPARATOR win32) of None \<Rightarrow> 0 | Some i \<Rightarrow> i) file
          @ '':'' @ to_string ln))"
proof -
  have f: "find_last_of (file @ '':'' @ to_string ln) (bFILE_PATH_SEPARATOR win32) =
      find_last_of file (bFILE_PATH_SEPARATOR win32)"
    by (rule find_last_of_append) (rule separator_not_in_suffix)
  show ?thesis
  proof (cases "find_last_of file (bFILE_PATH_SEPARATOR win32)")
    case None
    with f show ?thesis by (simp add: bTEST_ASSERT_def substr_def Let_def)
  next
    case (Some i)
    with find_last_of_Some [OF Some] f show ?thesis
      by (simp add: bTEST_ASSERT_def substr_def Let_def)
  qed
qed

lemma bTEST_ASSERT_True: "bTEST_ASSERT win32 file ln True = Returns"
  by (simp add: bTEST_ASSERT_def)

subsection \<open>What one test writes, and the console text of a run\<close>


lemma run_test_passed:
  assumes "rdbuf w = Console"
  shows "run_test no_log Console (name, (out, Returns)) (idx, w) =
     Inr (idx + 1,
       w\<lparr>console := console w @ status_line idx name Returns,
         testsLog := (if no_log then testsLog w
            else testsLog w @ replicate 80 (CHR ''-'') @ NL @
                 ''Test '' @ QUOTE @ name @ QUOTE @ '' log:'' @ NL @ NL @ out @
                 NL @ ''passed.'' @ NL @ replicate 80 (CHR ''-'') @ NL),
         g_successes := g_successes w + 1\<rparr>)"
  using assms
  by (cases no_log)
    (simp_all add: run_test_def Let_def cout_def set_rdbuf_def print_line_separator_def)

lemma run_test_caught:
  assumes "rdbuf w = Console" and "catch_std_exception e = Some what"
  shows "run_test no_log Console (name, (out, Throws e)) (idx, w) =
     Inr (idx + 1,
       w\<lparr>console := console w @ status_line idx name (Throws e),
         testsLog := (if no_log then testsLog w
            else testsLog w @ replicate 80 (CHR ''-'') @ NL @
                 ''Test '' @ QUOTE @ name @ QUOTE @ '' log:'' @ NL @ NL @ out @
                 NL @ ''failed at '' @ QUOTE @ what @ QUOTE @ ''.'' @ NL @
                 replicate 80 (CHR ''-'') @ NL)\<rparr>)"
  using assms
  by (cases no_log)
    (simp_all add: run_test_def Let_def cout_def set_rdbuf_def print_line_separator_def)


lemma run_test_console:
  assumes "rdbuf w = Console" and "run_test no_log Console (name, test) (idx, w) = Inr (idx', w')"
  shows "console w' = console w @ status_line idx name (snd test)"
proof (cases "snd test")
  case Returns
  then have "test = (fst test, Returns)" by (cases test) simp
  with assms run_test_passed [OF assms(1), of no_log name "fst test" idx] show ?thesis
    by (simp add: Returns)
next
  case (Throws e)
  then have t: "test = (fst test, Throws e)" by (cases test) simp
  from run_test_Inr [OF assms(2)] Throws obtain what where
    c: "catch_std_exception e = Some what" by auto
  from assms(2) run_test_caught [OF assms(1) c, of no_log name "fst test" idx] t
  show ?thesis by (simp add: Throws)
qed

lemma run_group_console:
  "rdbuf w = Console \<Longrightarrow> run_group no_log Console tests (idx, w) = Inr (idx', w') \<Longrightarrow>
     console w' = console w @ group_lines idx tests"
proof (induction tests arbitrary: idx w)
  case Nil
  then show ?case by simp
next
  case (Cons entry tests)
  obtain name test where entry: "entry = (name, test)" by (cases entry)
  from Cons.prems obtain s1 where
    s1: "run_test no_log Console (name, test) (idx, w) = Inr s1"
    and rest: "run_group no_log Console tests s1 = Inr (idx', w')"
    by (auto simp: entry split: sum.splits)
  obtain idx1 w1 where s1_eq: "s1 = (idx1, w1)" by (cases s1)
  note step = run_test_Inr [OF s1 [unfolded s1_eq]]
  note c1 = run_test_console [OF Cons.prems(1) s1 [unfolded s1_eq]]
  from step have r1: "rdbuf w1 = Console" and i1: "idx1 = idx + 1" by simp_all
  from Cons.IH [OF r1 rest [unfolded s1_eq]] c1 i1 show ?case by (simp add: entry)
qed

lemma run_groups_console:
  "rdbuf w = Console \<Longrightarrow> run_groups no_log Console reg (idx, w) = Inr (idx', w') \<Longrightarrow>
     console w' = console w @ run_lines idx reg"
proof (induction reg arbitrary: idx w)
  case Nil
  then show ?case by simp
next
  case (Cons g reg)
  obtain grp tests where g: "g = (grp, tests)" by (cases g)
  define w2 where "w2 =
    (let w1 = cout (''Group: '' @ QUOTE @ grp @ QUOTE @ NL) w
     in if \<not> no_log
        then set_rdbuf Console (cout (''Group: '' @ QUOTE @ grp @ QUOTE @ NL) (set_rdbuf LogFile w1))
        else w1)"
  from Cons.prems(1) have w2: "rdbuf w2 = Console"
    "console w2 = console w @ ''Group: '' @ QUOTE @ grp @ QUOTE @ NL"
    by (simp_all add: w2_def Let_def)
  from Cons.prems obtain s1 where
    s1: "run_group no_log Console tests (idx, w2) = Inr s1"
    and rest: "run_groups no_log Console reg s1 = Inr (idx', w')"
    by (auto simp: g w2_def Let_def split: sum.splits)
  obtain idx1 w1 where s1_eq: "s1 = (idx1, w1)" by (cases s1)
  note step = run_group_Inr [OF s1 [unfolded s1_eq]]
  note c1 = run_group_console [OF w2(1) s1 [unfolded s1_eq]]
  from step w2 have r1: "rdbuf w1 = Console" and i1: "idx1 = idx + length tests"
    by (simp_all split: if_splits)
  from Cons.IH [OF r1 rest [unfolded s1_eq]] c1 i1 w2 show ?case by (simp add: g)
qed

lemma run_tests_console:
  assumes "rdbuf w = Console" and "run_tests no_log reg w = Inr w'"
  shows "console w' = console w @ ''RUNNING TESTS...'' @ NL @ run_lines 0 reg"
proof -
  from assms obtain idx' where
    "run_groups no_log Console reg (0, cout (''RUNNING TESTS...'' @ NL) w) = Inr (idx', w')"
    by (auto simp: run_tests_def Let_def split: sum.splits)
  from run_groups_console [OF _ this] assms(1) show ?thesis by simp
qed

subsection \<open>A run that is left by an exception\<close>







subsection \<open>Prefixes of a run and the counter of passed tests\<close>


lemma run_group_append:
  "run_group no_log cb (ts1 @ ts2) s =
     (case run_group no_log cb ts1 s of Inl a \<Rightarrow> Inl a | Inr s1 \<Rightarrow> run_group no_log cb ts2 s1)"
  by (induction ts1 arbitrary: s) (auto split: sum.splits)

lemma run_groups_split:
  "run_groups no_log cb (gs1 @ (grp, ts1 @ ts2) # gs2) s =
     (case run_groups no_log cb (gs1 @ [(grp, ts1)]) s of
        Inl a \<Rightarrow> Inl a
      | Inr s1 \<Rightarrow>
          (case run_group no_log cb ts2 s1 of
             Inl a \<Rightarrow> Inl a
           | Inr s2 \<Rightarrow> run_groups no_log cb gs2 s2))"
proof (induction gs1 arbitrary: s)
  case Nil
  obtain idx w where s: "s = (idx, w)" by (cases s)
  show ?case
    by (simp add: s Let_def run_group_append split: sum.splits)
next
  case (Cons g gs1)
  obtain g' tests where g: "g = (g', tests)" by (cases g)
  obtain idx w where s: "s = (idx, w)" by (cases s)
  define w2 where "w2 =
    (let w1 = cout (''Group: '' @ QUOTE @ g' @ QUOTE @ NL) w
     in if \<not> no_log
        then set_rdbuf cb (cout (''Group: '' @ QUOTE @ g' @ QUOTE @ NL) (set_rdbuf LogFile w1))
        else w1)"
  have l: "run_groups no_log cb ((g', tests) # gs) (idx, w) =
      (case run_group no_log cb tests (idx, w2) of
         Inl a \<Rightarrow> Inl a | Inr s' \<Rightarrow> run_groups no_log cb gs s')" for gs
    by (simp add: w2_def Let_def)
  show ?case
  proof (cases "run_group no_log cb tests (idx, w2)")
    case (Inl a)
    then show ?thesis by (simp only: g s append_Cons l sum.case)
  next
    case (Inr s1)
    then show ?thesis by (simp only: g s append_Cons l sum.case Cons.IH)
  qed
qed

lemma total_tests_append [simp]:
  "total_tests (xs @ ys) = total_tests xs + total_tests ys"
  by (simp add: total_tests_def)

lemma run_test_world_of:
  "g_successes (world_of (run_test no_log cb (name, test) (idx, w))) =
     g_successes w + (if snd test = Returns then 1 else 0)"
proof (cases "run_test no_log cb (name, test) (idx, w)")
  case (Inl a)
  obtain e w' where a: "a = (e, w')" by (cases a)
  from run_test_Inl [OF Inl [unfolded a]] Inl a show ?thesis by simp
next
  case (Inr s1)
  obtain idx1 w1 where s1: "s1 = (idx1, w1)" by (cases s1)
  from run_test_Inr [OF Inr [unfolded s1]] Inr s1 show ?thesis by simp
qed

lemma run_groups_world_of:
  "g_successes w \<le> g_successes (world_of (run_groups no_log cb reg (idx, w))) \<and>
   g_successes (world_of (run_groups no_log cb reg (idx, w))) \<le> g_successes w + total_tests reg"
proof (cases "run_groups no_log cb reg (idx, w)")
  case (Inl a)
  obtain e w' where a: "a = (e, w')" by (cases a)
  from run_groups_Inl [OF Inl [unfolded a]] Inl a show ?thesis by simp
next
  case (Inr s1)
  obtain idx1 w1 where s1: "s1 = (idx1, w1)" by (cases s1)
  from run_groups_Inr [OF Inr [unfolded s1]] Inr s1 total_passing_le [of reg]
  show ?thesis by simp
qed

lemma main_g_successes:
  "g_successes (snd (main no_log reg initial_world)) \<le> total_tests reg"
proof (cases "run_tests no_log reg (print_info reg initial_world)")
  case (Inl a)
  obtain e w' where a: "a = (e, w')" by (cases a)
  from run_tests_Inl [OF Inl [unfolded a]] main_Inl [OF Inl [unfolded a]]
  show ?thesis by (simp add: print_info_fields)
next
  case (Inr w2)
  show ?thesis
  proof (cases "reg = []")
    case True
    then show ?thesis by (simp add: main_empty print_info_fields)
  next
    case False
    from main_Inr [OF False Inr] total_passing_le [of reg] show ?thesis by simp
  qed
qed

subsection \<open>The registry\<close>


lemma contains_iff: "contains m k \<longleftrightarrow> k \<in> fst ` set m"
  by (induction m) auto

lemma at_None_iff: "at m k = None \<longleftrightarrow> \<not> contains m k"
  by (induction m) (auto split: if_splits)

lemma at_insert_or_assign:
  "at (insert_or_assign k v m) k' = (if k' = k then Some v else at m k')"
  by (induction m) auto

lemma keys_insert_or_assign:
  "map fst (insert_or_assign k v m) = (if contains m k then map fst m else map fst m @ [k])"
  by (induction m) auto

lemma length_insert_or_assign:
  "length (insert_or_assign k v m) = (if contains m k then length m else length m + 1)"
  by (induction m) auto

lemma insert_or_assign_new: "\<not> contains m k \<Longrightarrow> insert_or_assign k v m = m @ [(k, v)]"
  by (induction m) auto

lemma unique_keys_insert_or_assign:
  "unique_keys m \<Longrightarrow> unique_keys (insert_or_assign k v m)"
  by (simp add: unique_keys_def keys_insert_or_assign contains_iff)

lemma set_insert_or_assign:
  "set (insert_or_assign k v m) \<subseteq> insert (k, v) (set m)"
  by (induction m) (auto split: if_splits)

lemma unique_keys_at:
  "unique_keys m \<Longrightarrow> (k, x) \<in> set m \<Longrightarrow> at m k = Some x"
  by (induction m) (auto simp: unique_keys_def rev_image_eqI)

lemma at_in_set: "at m k = Some x \<Longrightarrow> (k, x) \<in> set m"
  by (induction m) (auto split: if_splits)

lemma total_tests_insert_or_assign:
  "at reg g = Some tests \<Longrightarrow>
     total_tests (insert_or_assign g tests' reg) + length tests = total_tests reg + length tests'"
  by (induction reg) (auto split: if_splits)

lemma UnitTest_existing_group:
  assumes "at reg groupString = Some tests"
  shows "UnitTest name func groupString reg =
     Some (insert_or_assign groupString (insert_or_assign name func tests) reg)"
proof -
  from assms have "contains reg groupString"
    using at_None_iff [of reg groupString] by simp
  with assms show ?thesis by (simp add: UnitTest_def)
qed

lemma UnitTest_new_group:
  assumes "\<not> contains reg groupString"
  shows "UnitTest name func groupString reg = Some (reg @ [(groupString, [(name, func)])])"
proof -
  have a: "at (reg @ [(groupString, [])]) groupString = Some []"
    using assms by (induction reg) auto
  have b: "insert_or_assign groupString v (reg @ [(groupString, [])]) = reg @ [(groupString, v)]" for v
    using assms by (induction reg) auto
  from assms a b show ?thesis
    by (simp add: UnitTest_def insert_or_assign_new)
qed

lemma UnitTest_Some: "\<exists>reg'. UnitTest name func groupString reg = Some reg'"
proof (cases "at reg groupString")
  case None
  then have "\<not> contains reg groupString" by (simp add: at_None_iff)
  from UnitTest_new_group [OF this] show ?thesis by blast
next
  case (Some tests)
  from UnitTest_existing_group [OF this] show ?thesis by blast
qed

lemma find_test_UnitTest:
  assumes "UnitTest name func groupString reg = Some reg'"
  shows "find_test reg' g n =
     (if g = groupString \<and> n = name then Some func else find_test reg g n)"
proof (cases "at reg groupString")
  case None
  then have c: "\<not> contains reg groupString" by (simp add: at_None_iff)
  have "at (reg @ [(groupString, [(name, func)])]) g =
      (if g = groupString then Some [(name, func)] else at reg g)"
    using None by (induction reg) (auto split: if_splits)
  with assms UnitTest_new_group [OF c, of name func] None show ?thesis
    by (auto simp: find_test_def)
next
  case (Some tests)
  with assms UnitTest_existing_group [OF Some, of name func] show ?thesis
    by (auto simp: find_test_def at_insert_or_assign)
qed

lemma well_formed_insert:
  assumes "well_formed reg" and "unique_keys tests'"
  shows "well_formed (insert_or_assign g tests' reg)"
proof -
  from assms(1) have u: "unique_keys reg"
    and a: "\<forall>p \<in> set reg. unique_keys (snd p)"
    by (auto simp: well_formed_def list_all_iff)
  from a assms(2) set_insert_or_assign [of g tests' reg]
  have "\<forall>p \<in> set (insert_or_assign g tests' reg). unique_keys (snd p)" by auto
  with unique_keys_insert_or_assign [OF u] show ?thesis
    by (auto simp: well_formed_def list_all_iff)
qed

lemma well_formed_UnitTest:
  assumes "well_formed reg" and "UnitTest name func groupString reg = Some reg'"
  shows "well_formed reg'"
proof (cases "at reg groupString")
  case None
  then have c: "\<not> contains reg groupString" by (simp add: at_None_iff)
  then have e: "reg @ [(groupString, [(name, func)])] =
      insert_or_assign groupString [(name, func)] reg"
    by (simp add: insert_or_assign_new)
  have "unique_keys [(name, func)]" by (simp add: unique_keys_def)
  from well_formed_insert [OF assms(1) this, of groupString]
  have "well_formed (reg @ [(groupString, [(name, func)])])" by (simp only: e)
  with assms(2) UnitTest_new_group [OF c, of name func] show ?thesis by simp
next
  case (Some tests)
  from at_in_set [OF Some] assms(1) have "unique_keys tests"
    by (auto simp: well_formed_def list_all_iff)
  then have "unique_keys (insert_or_assign name func tests)"
    by (rule unique_keys_insert_or_assign)
  from well_formed_insert [OF assms(1) this, of groupString] assms(2)
    UnitTest_existing_group [OF Some, of name func]
  show ?thesis by auto
qed

lemma well_formed_register_all:
  "well_formed reg \<Longrightarrow> register_all rs reg = Some reg' \<Longrightarrow> well_formed reg'"
proof (induction rs arbitrary: reg)
  case Nil
  then show ?case by simp
next
  case (Cons r rs)
  obtain name func g where r: "r = (name, func, g)" by (cases r)
  from Cons.prems(2) obtain reg1 where
    u: "UnitTest name func g reg = Some reg1" and rest: "register_all rs reg1 = Some reg'"
    by (auto simp: r split: option.splits)
  from well_formed_UnitTest [OF Cons.prems(1) u] rest show ?case by (rule Cons.IH)
qed

text \<open>
  Registration never fails, and every registry built by registrations from the empty one
  has each key once.
\<close>


lemma register_all_Some: "\<exists>reg'. register_all rs reg = Some reg'"
proof (induction rs arbitrary: reg)
  case Nil
  then show ?case by simp
next
  case (Cons r rs)
  obtain name func g where r: "r = (name, func, g)" by (cases r)
  from UnitTest_Some obtain reg1 where "UnitTest name func g reg = Some reg1" by blast
  with Cons.IH [of reg1] show ?case by (simp add: r)
qed

lemma well_formed_reachable: "register_all rs [] = Some reg \<Longrightarrow> well_formed reg"
  by (rule well_formed_register_all [of "[]"]) (simp_all add: well_formed_def unique_keys_def)

subsection \<open>The log of a test, a registry of one test, the text of the summary\<close>


lemma to_string_1: "to_string (Suc 0) = ''1''"
  by code_simp

lemma run_test_log:
  assumes "rdbuf w = Console" and "run_test False Console (name, test) (idx, w) = Inr (idx', w')"
  shows "testsLog w' = testsLog w @ log_block name test"
proof (cases "snd test")
  case Returns
  then have "test = (fst test, Returns)" by (cases test) simp
  with assms run_test_passed [OF assms(1), of False name "fst test" idx] show ?thesis
    by (simp add: Returns log_block_def)
next
  case (Throws e)
  then have t: "test = (fst test, Throws e)" by (cases test) simp
  from run_test_Inr [OF assms(2)] Throws obtain what where
    c: "catch_std_exception e = Some what" by auto
  from assms(2) run_test_caught [OF assms(1) c, of False name "fst test" idx] t
  show ?thesis by (simp add: Throws log_block_def c)
qed

lemma run_test_no_log_testsLog:
  assumes "run_test True cb (name, test) (idx, w) = Inr (idx', w')" and "rdbuf w \<noteq> LogFile"
    and "cb \<noteq> LogFile"
  shows "testsLog w' = testsLog w"
  using assms
  by (auto simp: run_test_def Let_def split: outcome.splits option.splits)

lemma run_tests_single:
  assumes "rdbuf w = Console" and "\<not> escapes (snd func)"
  shows "\<exists>w'. run_tests no_log [(grp, [(name, func)])] w = Inr w' \<and>
           g_successes w' = g_successes w + (if snd func = Returns then 1 else 0) \<and>
           console w' = console w @ ''RUNNING TESTS...'' @ NL @
             ''Group: '' @ QUOTE @ grp @ QUOTE @ NL @ status_line 0 name (snd func) \<and>
           testsLog w' =
             (if no_log then testsLog w
              else testsLog w @ ''Group: '' @ QUOTE @ grp @ QUOTE @ NL @ log_block name func)"
proof -
  let ?reg = "[(grp, [(name, func)])]"
  have "all_handled ?reg" using assms(2) by simp
  from run_tests_handled [OF this] obtain w' where r: "run_tests no_log ?reg w = Inr w'" by blast
  from run_tests_Inr [OF r] have g: "g_successes w' = g_successes w + (if snd func = Returns then 1 else 0)"
    by simp
  from run_tests_console [OF assms(1) r] have c: "console w' = console w @ ''RUNNING TESTS...'' @ NL @
             ''Group: '' @ QUOTE @ grp @ QUOTE @ NL @ status_line 0 name (snd func)"
    by simp
  have l: "testsLog w' =
             (if no_log then testsLog w
              else testsLog w @ ''Group: '' @ QUOTE @ grp @ QUOTE @ NL @ log_block name func)"
  proof (cases no_log)
    case True
    define w2 where "w2 = cout (''Group: '' @ QUOTE @ grp @ QUOTE @ NL) (cout (''RUNNING TESTS...'' @ NL) w)"
    have w2: "rdbuf w2 = Console" "testsLog w2 = testsLog w" using assms(1) by (simp_all add: w2_def)
    from r True obtain s1 where s1: "run_test True Console (name, func) (0, w2) = Inr s1"
      and e: "w' = snd s1"
      by (auto simp: run_tests_def Let_def assms(1) w2_def split: sum.splits)
    obtain i1 w1 where s1_eq: "s1 = (i1, w1)" by (cases s1)
    from run_test_no_log_testsLog [OF s1 [unfolded s1_eq]] w2 e s1_eq True show ?thesis by simp
  next
    case False
    define w2 where "w2 = set_rdbuf Console (cout (''Group: '' @ QUOTE @ grp @ QUOTE @ NL)
        (set_rdbuf LogFile (cout (''Group: '' @ QUOTE @ grp @ QUOTE @ NL)
          (cout (''RUNNING TESTS...'' @ NL) w))))"
    have w2: "rdbuf w2 = Console" "testsLog w2 = testsLog w @ ''Group: '' @ QUOTE @ grp @ QUOTE @ NL"
      using assms(1) by (simp_all add: w2_def)
    from r False obtain s1 where s1: "run_test False Console (name, func) (0, w2) = Inr s1"
      and e: "w' = snd s1"
      by (auto simp: run_tests_def Let_def assms(1) w2_def split: sum.splits)
    obtain i1 w1 where s1_eq: "s1 = (i1, w1)" by (cases s1)
    from run_test_log [OF w2(1) s1 [unfolded s1_eq]] w2 e s1_eq False show ?thesis by simp
  qed
  from r g c l show ?thesis by blast
qed




text \<open>Assigning to a key that is present changes the value where it stands.\<close>


lemma insert_or_assign_in_place:
  "unique_keys m \<Longrightarrow> contains m k \<Longrightarrow>
     insert_or_assign k v m = map (\<lambda>(k', v'). if k' = k then (k', v) else (k', v')) m"
proof (induction m)
  case Nil
  then show ?case by simp
next
  case (Cons p m)
  obtain k' v' where p: "p = (k', v')" by (cases p)
  show ?case
  proof (cases "k' = k")
    case True
    with Cons.prems have "k \<notin> fst ` set m" by (simp add: p unique_keys_def)
    then have "map (\<lambda>(k', v'). if k' = k then (k', v) else (k', v')) m = m"
      by (intro map_idI) (auto simp: rev_image_eqI)
    with True show ?thesis by (simp add: p)
  next
    case False
    with Cons.prems have "unique_keys m" "contains m k" by (simp_all add: p unique_keys_def)
    with Cons.IH False show ?thesis by (simp add: p)
  qed
qed

lemma UnitTest_in_place:
  assumes "well_formed reg" and "at reg groupString = Some tests" and "at tests name = Some old"
  shows "UnitTest name func groupString reg =
     Some (map (\<lambda>(g, ts). if g = groupString
                 then (g, map (\<lambda>(n, f). if n = name then (n, func) else (n, f)) ts)
                 else (g, ts)) reg)"
proof -
  from assms(1) have ur: "unique_keys reg" and ut: "list_all (\<lambda>(grp, tests). unique_keys tests) reg"
    by (simp_all add: well_formed_def)
  have cg: "contains reg groupString" using assms(2) at_None_iff [of reg groupString] by simp
  have cn: "contains tests name" using assms(3) at_None_iff [of tests name] by simp
  from at_in_set [OF assms(2)] ut have utests: "unique_keys tests" by (auto simp: list_all_iff)
  have inner: "insert_or_assign name func tests =
      map (\<lambda>(n, f). if n = name then (n, func) else (n, f)) tests"
    using utests cn by (rule insert_or_assign_in_place)
  have "insert_or_assign groupString (insert_or_assign name func tests) reg =
      map (\<lambda>(g, ts). if g = groupString then (g, insert_or_assign name func tests)
                       else (g, ts)) reg"
    using ur cg by (rule insert_or_assign_in_place)
  also have "\<dots> = map (\<lambda>(g, ts). if g = groupString
                 then (g, map (\<lambda>(n, f). if n = name then (n, func) else (n, f)) ts)
                 else (g, ts)) reg"
  proof (rule map_cong [OF refl])
    fix p assume p: "p \<in> set reg"
    obtain g ts where pe: "p = (g, ts)" by (cases p)
    show "(case p of (g, ts) \<Rightarrow> if g = groupString
              then (g, insert_or_assign name func tests) else (g, ts)) =
          (case p of (g, ts) \<Rightarrow> if g = groupString
              then (g, map (\<lambda>(n, f). if n = name then (n, func) else (n, f)) ts) else (g, ts))"
    proof (cases "g = groupString")
      case True
      with p pe unique_keys_at [OF ur] assms(2) have "ts = tests" by auto
      with True inner show ?thesis by (simp add: pe)
    next
      case False
      then show ?thesis by (simp add: pe)
    qed
  qed
  finally show ?thesis using UnitTest_existing_group [OF assms(2), of name func] by simp
qed

subsection \<open>With logging, or when the tests print nothing\<close>

text \<open>
  What the loop body does with a \<^verbatim>\<open>std::exception\<close> and with two groups holding the
  same name, where no insertion meets the null buffer; and the agreement of the two
  embeddings of the loop body on a test that prints nothing.
\<close>

lemma failure_signal_caught:
  assumes "rdbuf w = Console" and "\<not> no_log \<or> out = []"
  shows "\<exists>w'. run_test no_log Console (name, (out, Throws (std_exception location))) (idx, w) =
            Inr (idx + 1, w') \<and>
          console w' = console w @
            TAB @ ''['' @ to_string (idx + 1) @ ''] : '' @ QUOTE @ name @ QUOTE @ '' '' @
            ''failed at '' @ QUOTE @ location @ QUOTE @ ''.'' @ NL \<and>
          testsLog w' = (if no_log then testsLog w
            else testsLog w @ replicate 80 (CHR ''-'') @ NL @
                 ''Test '' @ QUOTE @ name @ QUOTE @ '' log:'' @ NL @ NL @ out @
                 NL @ ''failed at '' @ QUOTE @ location @ QUOTE @ ''.'' @ NL @
                 replicate 80 (CHR ''-'') @ NL) \<and>
          g_successes w' = g_successes w \<and>
          rdbuf w' = Console \<and>
          run_group no_log Console ((name, (out, Throws (std_exception location))) # tests) (idx, w) =
            run_group no_log Console tests (idx + 1, w')"
proof -
  have c: "catch_std_exception (std_exception location) = Some location" by simp
  note step = run_test_caught [OF assms(1) c, of no_log name out idx]
  show ?thesis
    by (rule exI, intro conjI, rule step) (simp_all add: assms(1) step)
qed

lemma derived_exception_is_test_failure:
  assumes "rdbuf w = Console" and "\<not> no_log \<or> out = []"
  shows "\<exists>w'. run_test no_log Console (name, (out, Throws (derived_exception cls what))) (idx, w) =
            Inr (idx + 1, w') \<and>
          console w' = console w @
            TAB @ ''['' @ to_string (idx + 1) @ ''] : '' @ QUOTE @ name @ QUOTE @ '' '' @
            ''failed at '' @ QUOTE @ what @ QUOTE @ ''.'' @ NL \<and>
          g_successes w' = g_successes w \<and>
          run_group no_log Console ((name, (out, Throws (derived_exception cls what))) # tests) (idx, w) =
            run_group no_log Console tests (idx + 1, w')"
proof -
  have c: "catch_std_exception (derived_exception cls what) = Some what" by simp
  note step = run_test_caught [OF assms(1) c, of no_log name out idx]
  show ?thesis
    by (rule exI, intro conjI, rule step) (simp_all add: assms(1) step)
qed

lemma same_name_in_two_groups:
  assumes "g1 \<noteq> g2"
  shows "\<exists>reg1 reg2.
            UnitTest name f1 g1 reg = Some reg1 \<and> UnitTest name f2 g2 reg1 = Some reg2 \<and>
            find_test reg2 g1 name = Some f1 \<and> find_test reg2 g2 name = Some f2"
    and "register_all [(name, f1, g1), (name, f2, g2)] [] =
            Some [(g1, [(name, f1)]), (g2, [(name, f2)])]"
proof -
  from UnitTest_Some obtain reg1 where u1: "UnitTest name f1 g1 reg = Some reg1" by blast
  from UnitTest_Some obtain reg2 where u2: "UnitTest name f2 g2 reg1 = Some reg2" by blast
  from find_test_UnitTest [OF u1] have "find_test reg1 g1 name = Some f1" by simp
  with find_test_UnitTest [OF u2] assms(1)
  have "find_test reg2 g1 name = Some f1" "find_test reg2 g2 name = Some f2" by simp_all
  with u1 u2 show "\<exists>reg1 reg2.
            UnitTest name f1 g1 reg = Some reg1 \<and> UnitTest name f2 g2 reg1 = Some reg2 \<and>
            find_test reg2 g1 name = Some f1 \<and> find_test reg2 g2 name = Some f2"
    by blast
  show "register_all [(name, f1, g1), (name, f2, g2)] [] =
            Some [(g1, [(name, f1)]), (g2, [(name, f2)])]"
    using assms(1) by (simp add: UnitTest_def)
qed

lemma both_groups_run:
  assumes "\<not> escapes (snd f1)" and "\<not> escapes (snd f2)" and "rdbuf w = Console"
    and "\<not> no_log \<or> (fst f1 = [] \<and> fst f2 = [])"
  shows "\<exists>w'. run_tests no_log [(g1, [(name, f1)]), (g2, [(name, f2)])] w = Inr w' \<and>
            g_successes w' = g_successes w +
              (if snd f1 = Returns then 1 else 0) + (if snd f2 = Returns then 1 else 0) \<and>
            console w' = console w @ ''RUNNING TESTS...'' @ NL @
              ''Group: '' @ QUOTE @ g1 @ QUOTE @ NL @ status_line 0 name (snd f1) @
              ''Group: '' @ QUOTE @ g2 @ QUOTE @ NL @ status_line 1 name (snd f2)"
proof -
  let ?reg = "[(g1, [(name, f1)]), (g2, [(name, f2)])]"
  have "all_handled ?reg" using assms(1,2) by simp
  from run_tests_handled [OF this] obtain w' where
    r: "run_tests no_log ?reg w = Inr w'" by blast
  from run_tests_Inr [OF r] have
    "g_successes w' = g_successes w +
       (if snd f1 = Returns then 1 else 0) + (if snd f2 = Returns then 1 else 0)"
    by simp
  moreover from run_tests_console [OF assms(3) r] have
    "console w' = console w @ ''RUNNING TESTS...'' @ NL @
       ''Group: '' @ QUOTE @ g1 @ QUOTE @ NL @ status_line 0 name (snd f1) @
       ''Group: '' @ QUOTE @ g2 @ QUOTE @ NL @ status_line 1 name (snd f2)"
    by simp
  ultimately show ?thesis using r by blast
qed

lemma run_test_NO_LOG_silent:
  assumes "rdbuf w = Console" and "\<not> badbit w"
  shows "run_test_NO_LOG Console (name, ([], oc)) (idx, w) =
     (case oc of
        Returns \<Rightarrow>
          Inr (idx + 1, w\<lparr>console := console w @ status_line idx name Returns,
                          g_successes := g_successes w + 1\<rparr>)
      | Throws e \<Rightarrow>
          (case catch_std_exception e of
             Some what \<Rightarrow> Inr (idx + 1, w\<lparr>console := console w @ status_line idx name (Throws e)\<rparr>)
           | None \<Rightarrow>
               Inl (Uncaught e, w\<lparr>console := console w @ status_line idx name (Throws e),
                                   rdbuf := Nullptr\<rparr>)))"
  using assms
  by (simp add: run_test_NO_LOG_def split: outcome.splits option.splits)

section \<open>The statements of the specification\<close>

subsection \<open>C1: the exit status\<close>



subsection \<open>C4: the payload of the failure signal\<close>

text \<open>
  C4. With a false condition the macro throws a \<^verbatim>\<open>std::exception\<close> whose text is
  meant to be the file name after the last path separator, a colon and the line. The
  code cuts the string at the index of the last separator, not one past it, so the
  separator stays in front: for \<^verbatim>\<open>__FILE__\<close> \<^verbatim>\<open>src/tests/test_1.cpp\<close> and line 12
  the text is \<^verbatim>\<open>/test_1.cpp:12\<close>. Without a separator in the path the text is the
  whole path, a colon and the line. (The lemma \<open>bTEST_ASSERT_False\<close> above gives the
  text for every path.)
\<close>

theorem bTEST_ASSERT_keeps_separator:
  "bTEST_ASSERT False ''src/tests/test_1.cpp'' 12 False =
     Throws (std_exception ''/test_1.cpp:12'') \<and>
   bTEST_ASSERT False ''test_1.cpp'' 12 False = Throws (std_exception ''test_1.cpp:12'')"
  by code_simp

subsection \<open>C5: no test registered\<close>

text \<open>
  C5, as stated: with no test registered the stream buffer is never redirected, the
  post-run summary reports 0 passed out of 0 tests, and the exit status is the pass code.
  The statement fails: \<^verbatim>\<open>main\<close> returns before \<^verbatim>\<open>print_summary\<close>, so the text
  \<^verbatim>\<open>Passed 0 out of 0 tests.\<close> is not on the console.
\<close>

theorem zero_tests_summary_counterexample:
  "\<not> (rdbuf (snd (main False [] initial_world)) = Console \<and>
      testsLog (snd (main False [] initial_world)) = [] \<and>
      sublist (''Passed '' @ to_string 0 @ '' out of '' @ to_string 0 @ '' tests.'')
        (console (snd (main False [] initial_world))) \<and>
      fst (main False [] initial_world) = Exited (static_cast_int pass))"
  by code_simp

text \<open>
  C5, amended. With no test registered the registry is empty and \<^verbatim>\<open>main\<close> returns the
  pass code, 0, right after \<^verbatim>\<open>print_info\<close>: the runner is not started, the stream
  buffer of \<^verbatim>\<open>std::cout\<close> is still the console, nothing is written to the log,
  \<^verbatim>\<open>g_successes\<close> is 0, and the console holds the pre-run information only, which
  reports 0 tests in 0 groups; no post-run summary is printed.
\<close>

theorem zero_tests_registered:
  "register_all [] [] = Some [] \<and>
   main no_log [] initial_world = (Exited (static_cast_int pass), print_info [] initial_world) \<and>
   static_cast_int pass = 0 \<and>
   rdbuf (print_info [] initial_world) = Console \<and>
   testsLog (print_info [] initial_world) = [] \<and>
   g_successes (print_info [] initial_world) = 0 \<and>
   console (print_info [] initial_world) =
     replicate 80 (CHR ''-'') @ NL @
     ''INFO:'' @ TAB @ ''If all tests pass (or no tests fail), the program will return success.'' @ NL @
     TAB @ TAB @ ''Otherwise, it will return failure.'' @ NL @
     ''INFO:'' @ TAB @ ''Found 0 tests in 0 groups.'' @ NL @
     replicate 80 (CHR ''-'') @ NL"
proof (intro conjI)
  show "console (print_info [] initial_world) =
     replicate 80 (CHR ''-'') @ NL @
     ''INFO:'' @ TAB @ ''If all tests pass (or no tests fail), the program will return success.'' @ NL @
     TAB @ TAB @ ''Otherwise, it will return failure.'' @ NL @
     ''INFO:'' @ TAB @ ''Found 0 tests in 0 groups.'' @ NL @
     replicate 80 (CHR ''-'') @ NL"
    by code_simp
  show "testsLog (print_info [] initial_world) = []"
    by code_simp
qed (simp_all add: main_empty print_info_fields)

subsection \<open>C7: the counter of passed tests\<close>

text \<open>
  C7. \<^verbatim>\<open>g_successes\<close> starts at zero; \<^verbatim>\<open>print_info\<close>, \<^verbatim>\<open>get_number_of_tests\<close> and
  \<^verbatim>\<open>print_summary\<close> leave it unchanged; one pass through the loop body adds one to it
  when the test function returns and nothing otherwise (also when the body is left by an
  exception). A run over a registry passes, between any two tests, through the world that
  the loops reach on the registry cut off at that point; in every such world, and in the
  world in which the loops are left by an exception, the counter has grown by no more than
  the number of all registered tests. At the end of \<^verbatim>\<open>main\<close>, however it ends, the
  counter is at most the total that \<^verbatim>\<open>get_number_of_tests\<close> reports.
\<close>

theorem passed_never_exceeds_total:
  "g_successes initial_world = 0 \<and>
   g_successes (print_info reg w) = g_successes w \<and>
   g_successes (snd (get_number_of_tests reg w)) = g_successes w \<and>
   g_successes (print_summary no_log reg w) = g_successes w \<and>
   g_successes (world_of (run_test no_log cb (name, test) (idx, w))) =
     g_successes w + (if snd test = Returns then 1 else 0) \<and>
   run_groups no_log cb (gs1 @ (grp, ts1 @ ts2) # gs2) (0, w) =
     (case run_groups no_log cb (gs1 @ [(grp, ts1)]) (0, w) of
        Inl a \<Rightarrow> Inl a
      | Inr s1 \<Rightarrow>
          (case run_group no_log cb ts2 s1 of
             Inl a \<Rightarrow> Inl a
           | Inr s2 \<Rightarrow> run_groups no_log cb gs2 s2)) \<and>
   g_successes w \<le> g_successes (world_of (run_groups no_log cb (gs1 @ [(grp, ts1)]) (0, w))) \<and>
   g_successes (world_of (run_groups no_log cb (gs1 @ [(grp, ts1)]) (0, w))) \<le>
     g_successes w + total_tests (gs1 @ (grp, ts1 @ ts2) # gs2) \<and>
   total_tests reg = fst (get_number_of_tests reg initial_world) \<and>
   g_successes (snd (main no_log reg initial_world)) \<le> fst (get_number_of_tests reg initial_world)"
proof (intro conjI)
  show "run_groups no_log cb (gs1 @ (grp, ts1 @ ts2) # gs2) (0, w) =
     (case run_groups no_log cb (gs1 @ [(grp, ts1)]) (0, w) of
        Inl a \<Rightarrow> Inl a
      | Inr s1 \<Rightarrow>
          (case run_group no_log cb ts2 s1 of
             Inl a \<Rightarrow> Inl a
           | Inr s2 \<Rightarrow> run_groups no_log cb gs2 s2))"
    by (rule run_groups_split)
  show "g_successes w \<le> g_successes (world_of (run_groups no_log cb (gs1 @ [(grp, ts1)]) (0, w)))"
    using run_groups_world_of [of w no_log cb "gs1 @ [(grp, ts1)]" 0] by simp
  show "g_successes (world_of (run_groups no_log cb (gs1 @ [(grp, ts1)]) (0, w))) \<le>
     g_successes w + total_tests (gs1 @ (grp, ts1 @ ts2) # gs2)"
    using run_groups_world_of [of w no_log cb "gs1 @ [(grp, ts1)]" 0] by simp
  show "g_successes (world_of (run_test no_log cb (name, test) (idx, w))) =
     g_successes w + (if snd test = Returns then 1 else 0)"
    by (rule run_test_world_of)
  show "g_successes (snd (main no_log reg initial_world)) \<le> fst (get_number_of_tests reg initial_world)"
    using main_g_successes [of no_log reg] by (simp add: get_number_of_tests_initial)
qed (simp_all add: print_info_fields print_summary_g_successes get_number_of_tests_initial)

subsection \<open>C2: a failed assertion is caught at the test\<close>

text \<open>
  C2. When a test function throws the failure signal of \<^verbatim>\<open>bTEST_ASSERT\<close>, the runner
  is to catch it at that test, print the line \<^verbatim>\<open>failed at '<location>'.\<close>, leave
  \<^verbatim>\<open>g_successes\<close> unchanged and go on with the next test. In a build with logging, and
  for a test that prints nothing, the loop body does exactly that (lemma
  \<open>failure_signal_caught\<close>). In a build without logging it does not print the line once
  the test has inserted a number into \<^verbatim>\<open>std::cout\<close>: for the test
  \<^verbatim>\<open>std::cout << 42; bTEST_ASSERT(false);\<close> on line 3 of \<^verbatim>\<open>src/a.cpp\<close>, run first
  from the initial world, the exception is caught and the index advances, but the
  console holds the announcement only and the stream is left with \<^verbatim>\<open>badbit\<close> set.
\<close>

theorem failed_at_line_lost_without_log:
  "run_test_NO_LOG Console (''t1'', ([Number 42], bTEST_ASSERT False ''src/a.cpp'' 3 False))
     (0, initial_stream_world) =
   Inr (1, initial_stream_world
        \<lparr>console := TAB @ ''[1] : '' @ QUOTE @ ''t1'' @ QUOTE @ '' '', badbit := True\<rparr>)"
  by (simp add: run_test_NO_LOG_def initial_stream_world_def to_string_1 bTEST_ASSERT_False
        bFILE_PATH_SEPARATOR_def)

subsection \<open>C10: every exception derived from \<^verbatim>\<open>std::exception\<close> counts as a test failure\<close>

text \<open>
  C10. The handler also matches an object of a class derived from \<^verbatim>\<open>std::exception\<close>,
  and the runner is to report it as a failed test with the text of \<^verbatim>\<open>what()\<close> as the
  location, without counting it as passed, and to go on. In a build with logging, and for
  a test that prints nothing, the loop body does exactly that (lemma
  \<open>derived_exception_is_test_failure\<close>). In a build without logging the report is lost
  once the test has inserted a number: for a group of a test
  \<^verbatim>\<open>std::cout << 42; throw std::runtime_error("boom");\<close> and a second test that just
  returns, both tests are run and the second is counted, but the console holds the first
  announcement only: neither \<^verbatim>\<open>failed at 'boom'.\<close> nor any line of the second test.
\<close>

theorem what_line_lost_without_log:
  "run_group_NO_LOG Console
     [(''t1'', ([Number 42], Throws (derived_exception ''std::runtime_error'' ''boom''))),
      (''t2'', ([], Returns))]
     (0, initial_stream_world) =
   Inr (2, initial_stream_world
        \<lparr>console := TAB @ ''[1] : '' @ QUOTE @ ''t1'' @ QUOTE @ '' '', g_successes := 1,
          badbit := True\<rparr>)"
  by (simp add: run_test_NO_LOG_def initial_stream_world_def to_string_1)

subsection \<open>C8: one name in two groups\<close>

text \<open>
  C8. Registering a name under one group and then under another keeps both entries, each
  with its own function (lemma \<open>same_name_in_two_groups\<close>), and the runner is to run
  both. In a build with logging, and for tests that print nothing, it does, each counted
  by its own outcome (lemma \<open>both_groups_run\<close>). In a build without logging it does not
  when the first of the two prints text: for the groups \<^verbatim>\<open>g1\<close> and \<^verbatim>\<open>g2\<close>, each
  with a test \<^verbatim>\<open>t\<close> that prints one character and returns, the process is killed
  inside the first test, with \<^verbatim>\<open>g_successes\<close> still 0; the test of the second group is
  never called.
\<close>

theorem second_group_not_run_without_log:
  "run_tests_NO_LOG
     [(''g1'', [(''t'', ([Chars ''a''], Returns))]), (''g2'', [(''t'', ([Chars ''b''], Returns))])]
     initial_stream_world =
   Inl (Killed, initial_stream_world
        \<lparr>rdbuf := Nullptr,
          console := ''RUNNING TESTS...'' @ NL @ ''Group: '' @ QUOTE @ ''g1'' @ QUOTE @ NL @
                     TAB @ ''[1] : '' @ QUOTE @ ''t'' @ QUOTE @ '' ''\<rparr>)"
  by (simp add: run_tests_NO_LOG_def run_test_NO_LOG_def initial_stream_world_def to_string_1)

subsection \<open>C6: the stream buffer is restored, the status lines reach the console\<close>




subsection \<open>C9: what ends the run\<close>




subsection \<open>C3: registering a (group, name) pair again\<close>

text \<open>
  C3. In a registry in which no key occurs twice, constructing a \<^verbatim>\<open>UnitTest\<close> for a
  (group, name) pair that is already stored succeeds and stores the new function under
  that pair: the registry is the old one with the function of that one entry replaced
  where it stands, the group has as many entries as before, the registry has as many
  groups and as many tests as before, every entry of that group with that name holds the
  new function, and every other pair holds what it held. The runner executes what the
  new registry holds: in a build with logging, or when no test prints, a run over it
  that meets no object the handler does not match completes, counts the tests of the
  new registry that return, and shows the status lines of the new registry, among them
  the one of the new function. Starting from the empty registry, two registrations of
  the same pair leave one group with one entry, the second function; and the run over
  that registry executes the second function: \<^verbatim>\<open>g_successes\<close> grows by one exactly
  when it returns, the console shows the status line for its outcome, and the log (when
  enabled) holds the group header and the block of that test with what the second
  function printed and its result.
\<close>

theorem reregistration_replaces:
  assumes "well_formed reg" and "at reg groupString = Some tests" and "at tests name = Some old"
  shows "(\<exists>reg' tests'.
           UnitTest name func groupString reg = Some reg' \<and>
           reg' = map (\<lambda>(g, ts). if g = groupString
                         then (g, map (\<lambda>(n, f). if n = name then (n, func) else (n, f)) ts)
                         else (g, ts)) reg \<and>
           at reg' groupString = Some tests' \<and>
           at tests' name = Some func \<and>
           length tests' = length tests \<and>
           length reg' = length reg \<and>
           total_tests reg' = total_tests reg \<and>
           well_formed reg' \<and>
           (\<forall>ts x. (groupString, ts) \<in> set reg' \<and> (name, x) \<in> set ts \<longrightarrow> x = func) \<and>
           (\<forall>g n. \<not> (g = groupString \<and> n = name) \<longrightarrow> find_test reg' g n = find_test reg g n) \<and>
           (rdbuf w = Console \<and> all_handled reg' \<and> (\<not> no_log \<or> all_silent reg') \<longrightarrow>
              (\<exists>w'. run_tests no_log reg' w = Inr w' \<and>
                 g_successes w' = g_successes w + total_passing reg' \<and>
                 console w' = console w @ ''RUNNING TESTS...'' @ NL @ run_lines 0 reg'))) \<and>
         register_all [(name, first_func, groupString), (name, func, groupString)] [] =
           Some [(groupString, [(name, func)])] \<and>
         (rdbuf w = Console \<and> \<not> escapes (snd func) \<and> (\<not> no_log \<or> fst func = []) \<longrightarrow>
            (\<exists>w'. run_tests no_log [(groupString, [(name, func)])] w = Inr w' \<and>
               g_successes w' = g_successes w + (if snd func = Returns then 1 else 0) \<and>
               console w' = console w @ ''RUNNING TESTS...'' @ NL @
                 ''Group: '' @ QUOTE @ groupString @ QUOTE @ NL @ status_line 0 name (snd func) \<and>
               testsLog w' =
                 (if no_log then testsLog w
                  else testsLog w @ ''Group: '' @ QUOTE @ groupString @ QUOTE @ NL @
                       log_block name func)))"
proof (intro conjI impI)
  let ?tests' = "insert_or_assign name func tests"
  let ?reg' = "insert_or_assign groupString ?tests' reg"
  have u: "UnitTest name func groupString reg = Some ?reg'"
    using assms(2) by (rule UnitTest_existing_group)
  have ip: "?reg' = map (\<lambda>(g, ts). if g = groupString
                         then (g, map (\<lambda>(n, f). if n = name then (n, func) else (n, f)) ts)
                         else (g, ts)) reg"
    using UnitTest_in_place [OF assms, of func] u by simp
  have cg: "contains reg groupString" using assms(2) at_None_iff [of reg groupString] by simp
  have cn: "contains tests name" using assms(3) at_None_iff [of tests name] by simp
  have a1: "at ?reg' groupString = Some ?tests'" by (simp add: at_insert_or_assign)
  have a2: "at ?tests' name = Some func" by (simp add: at_insert_or_assign)
  have l1: "length ?tests' = length tests" using cn by (simp add: length_insert_or_assign)
  have l2: "length ?reg' = length reg" using cg by (simp add: length_insert_or_assign)
  have t: "total_tests ?reg' = total_tests reg"
    using total_tests_insert_or_assign [OF assms(2), of ?tests'] l1 by simp
  have wf: "well_formed ?reg'" using assms(1) u by (rule well_formed_UnitTest)
  have only: "\<forall>ts x. (groupString, ts) \<in> set ?reg' \<and> (name, x) \<in> set ts \<longrightarrow> x = func"
  proof (intro allI impI)
    fix ts x
    assume h: "(groupString, ts) \<in> set ?reg' \<and> (name, x) \<in> set ts"
    from wf have ur: "unique_keys ?reg'" and ut: "list_all (\<lambda>(grp, tests). unique_keys tests) ?reg'"
      by (simp_all add: well_formed_def)
    from unique_keys_at [OF ur] h have "at ?reg' groupString = Some ts" by blast
    with a1 have ts: "ts = ?tests'" by simp
    from ut h have "unique_keys ts" by (auto simp: list_all_iff)
    from unique_keys_at [OF this] h have "at ts name = Some x" by blast
    with a2 ts show "x = func" by simp
  qed
  have other: "\<forall>g n. \<not> (g = groupString \<and> n = name) \<longrightarrow> find_test ?reg' g n = find_test reg g n"
    using find_test_UnitTest [OF u] by simp
  have run: "rdbuf w = Console \<and> all_handled ?reg' \<and> (\<not> no_log \<or> all_silent ?reg') \<longrightarrow>
              (\<exists>w'. run_tests no_log ?reg' w = Inr w' \<and>
                 g_successes w' = g_successes w + total_passing ?reg' \<and>
                 console w' = console w @ ''RUNNING TESTS...'' @ NL @ run_lines 0 ?reg')"
  proof
    assume a: "rdbuf w = Console \<and> all_handled ?reg' \<and> (\<not> no_log \<or> all_silent ?reg')"
    then have b: "rdbuf w = Console" and h: "all_handled ?reg'" by simp_all
    from run_tests_handled [OF h] obtain w' where r: "run_tests no_log ?reg' w = Inr w'" by blast
    from run_tests_Inr [OF r] run_tests_console [OF b r] r
    show "\<exists>w'. run_tests no_log ?reg' w = Inr w' \<and>
                 g_successes w' = g_successes w + total_passing ?reg' \<and>
                 console w' = console w @ ''RUNNING TESTS...'' @ NL @ run_lines 0 ?reg'"
      by blast
  qed
  from u ip a1 a2 l1 l2 t wf only other run
  show "\<exists>reg' tests'.
           UnitTest name func groupString reg = Some reg' \<and>
           reg' = map (\<lambda>(g, ts). if g = groupString
                         then (g, map (\<lambda>(n, f). if n = name then (n, func) else (n, f)) ts)
                         else (g, ts)) reg \<and>
           at reg' groupString = Some tests' \<and>
           at tests' name = Some func \<and>
           length tests' = length tests \<and>
           length reg' = length reg \<and>
           total_tests reg' = total_tests reg \<and>
           well_formed reg' \<and>
           (\<forall>ts x. (groupString, ts) \<in> set reg' \<and> (name, x) \<in> set ts \<longrightarrow> x = func) \<and>
           (\<forall>g n. \<not> (g = groupString \<and> n = name) \<longrightarrow> find_test reg' g n = find_test reg g n) \<and>
           (rdbuf w = Console \<and> all_handled reg' \<and> (\<not> no_log \<or> all_silent reg') \<longrightarrow>
              (\<exists>w'. run_tests no_log reg' w = Inr w' \<and>
                 g_successes w' = g_successes w + total_passing reg' \<and>
                 console w' = console w @ ''RUNNING TESTS...'' @ NL @ run_lines 0 reg'))"
    by blast
  show "register_all [(name, first_func, groupString), (name, func, groupString)] [] =
           Some [(groupString, [(name, func)])]"
    by (simp add: UnitTest_def)
next
  assume a: "rdbuf w = Console \<and> \<not> escapes (snd func) \<and> (\<not> no_log \<or> fst func = [])"
  then have "rdbuf w = Console" "\<not> escapes (snd func)" by simp_all
  then show "\<exists>w'. run_tests no_log [(groupString, [(name, func)])] w = Inr w' \<and>
               g_successes w' = g_successes w + (if snd func = Returns then 1 else 0) \<and>
               console w' = console w @ ''RUNNING TESTS...'' @ NL @
                 ''Group: '' @ QUOTE @ groupString @ QUOTE @ NL @ status_line 0 name (snd func) \<and>
               testsLog w' =
                 (if no_log then testsLog w
                  else testsLog w @ ''Group: '' @ QUOTE @ groupString @ QUOTE @ NL @
                       log_block name func)"
    by (rule run_tests_single)
qed

theorem reregistration_replaces_witness:
  "well_formed [(''g'', [(''t'', (''a'', Returns))])] \<and>
   at [(''g'', [(''t'', (''a'', Returns))])] ''g'' = Some [(''t'', (''a'', Returns))] \<and>
   at [(''t'', (''a'', Returns))] ''t'' = Some (''a'', Returns) \<and>
   UnitTest ''t'' (''b'', Throws (std_exception ''/a.cpp:3'')) ''g''
     [(''g'', [(''t'', (''a'', Returns))])] =
       Some [(''g'', [(''t'', (''b'', Throws (std_exception ''/a.cpp:3'')))])] \<and>
   rdbuf initial_world = Console \<and>
   \<not> escapes (snd (''b'', Throws (std_exception ''/a.cpp:3''))) \<and>
   (\<exists>w'. run_tests False [(''g'', [(''t'', (''b'', Throws (std_exception ''/a.cpp:3'')))])]
            initial_world = Inr w' \<and>
         g_successes w' = 0 \<and>
         console w' = ''RUNNING TESTS...'' @ NL @ ''Group: '' @ QUOTE @ ''g'' @ QUOTE @ NL @
           TAB @ ''[1] : '' @ QUOTE @ ''t'' @ QUOTE @ '' failed at '' @ QUOTE @ ''/a.cpp:3'' @ QUOTE @
           ''.'' @ NL \<and>
         testsLog w' = ''Group: '' @ QUOTE @ ''g'' @ QUOTE @ NL @
           replicate 80 (CHR ''-'') @ NL @ ''Test '' @ QUOTE @ ''t'' @ QUOTE @ '' log:'' @ NL @ NL @
           ''b'' @ NL @ ''failed at '' @ QUOTE @ ''/a.cpp:3'' @ QUOTE @ ''.'' @ NL @
           replicate 80 (CHR ''-'') @ NL)"
proof -
  let ?ts = "[(''t'', (''a'', Returns))]"
  let ?reg = "[(''g'', ?ts)]"
  let ?f = "(''b'', Throws (std_exception ''/a.cpp:3''))"
  have h1: "well_formed ?reg" by (simp add: well_formed_def unique_keys_def)
  have h2: "at ?reg ''g'' = Some ?ts" by simp
  have h3: "at ?ts ''t'' = Some (''a'', Returns)" by simp
  have h4: "rdbuf initial_world = Console" by simp
  have h5: "\<not> escapes (snd ?f)" by simp
  note t = reregistration_replaces [OF h1 h2 h3, of ?f initial_world False]
  from t have p1: "UnitTest ''t'' ?f ''g'' ?reg = Some [(''g'', [(''t'', ?f)])]"
    by auto
  from t h4 h5 have p2: "\<exists>w'. run_tests False [(''g'', [(''t'', ?f)])] initial_world = Inr w' \<and>
         g_successes w' = 0 \<and>
         console w' = ''RUNNING TESTS...'' @ NL @ ''Group: '' @ QUOTE @ ''g'' @ QUOTE @ NL @
           TAB @ ''[1] : '' @ QUOTE @ ''t'' @ QUOTE @ '' failed at '' @ QUOTE @ ''/a.cpp:3'' @ QUOTE @
           ''.'' @ NL \<and>
         testsLog w' = ''Group: '' @ QUOTE @ ''g'' @ QUOTE @ NL @
           replicate 80 (CHR ''-'') @ NL @ ''Test '' @ QUOTE @ ''t'' @ QUOTE @ '' log:'' @ NL @ NL @
           ''b'' @ NL @ ''failed at '' @ QUOTE @ ''/a.cpp:3'' @ QUOTE @ ''.'' @ NL @
           replicate 80 (CHR ''-'') @ NL"
    by (simp add: to_string_1 log_block_def)
  from h1 h2 h3 h4 h5 p1 p2 show ?thesis by blast
qed

end
